theory Spec2Isabelle
  imports Complex_Main "HOL-Library.AList" "HOL-Library.Signed_Division" "HOL-Library.Word"
begin

section \<open>Data model (shared/schema.ts)\<close>

text \<open>
  The tables of the schema become records. Every \<open>integer\<close>/\<open>serial\<close> column is an
  \<open>int\<close>, a nullable column is an \<open>option\<close>, a timestamp is the number of milliseconds
  since the epoch. The two \<open>status\<close> text columns only ever hold the values listed in the
  schema's comments, so each is a datatype.
\<close>

datatype game_status = Waiting | Active | GameCompleted

datatype round_status = Setup | Writing | Judging | Completed

text \<open>A JavaScript string is a sequence of UTF-16 code units.\<close>

type_synonym jsstring = "16 word list"

record game =
  g_id :: int
  g_name :: string
  g_createdBy :: int
  g_currentRound :: int
  g_totalRounds :: int
  g_currentJudgeIndex :: int
  g_status :: game_status
  g_createdAt :: int

record player =
  pl_id :: int
  pl_gameId :: int
  pl_userId :: int
  pl_score :: int
  pl_isHost :: bool

record round =
  r_id :: int
  r_gameId :: int
  r_roundNumber :: int
  r_judgeId :: int
  r_words :: "string list"
  r_status :: round_status
  r_timeLimit :: int
  r_endTime :: "int option"
  r_winnerId :: "int option"

record poem =
  po_id :: int
  po_roundId :: int
  po_playerId :: int
  po_content :: jsstring
  po_submitted :: bool
  po_submittedAt :: "int option"

section \<open>The in-memory store (class MemStorage)\<close>

text \<open>
  The handlers talk to the \<open>IStorage\<close> interface; the store modelled is its in-memory
  implementation. A JavaScript \<open>Map\<close> iterates in insertion order, and \<open>set\<close> on a
  key that is present replaces the value in place: this is an association list with
  \<open>AList.update\<close>; \<open>get\<close> is \<open>map_of\<close> and \<open>values()\<close> is \<open>map snd\<close>. The user
  table is left out: the handlers modelled here read it only to build response bodies.
\<close>

record store =
  games :: "(int \<times> game) list"
  players :: "(int \<times> player) list"
  rounds :: "(int \<times> round) list"
  poems :: "(int \<times> poem) list"
  gameIdCounter :: int
  playerIdCounter :: int
  roundIdCounter :: int
  poemIdCounter :: int

definition MemStorage :: store where
  "MemStorage = \<lparr> games = [], players = [], rounds = [], poems = [],
     gameIdCounter = 1, playerIdCounter = 1, roundIdCounter = 1, poemIdCounter = 1 \<rparr>"

subsection \<open>Game operations\<close>

definition createGame :: "int \<Rightarrow> string \<Rightarrow> int \<Rightarrow> int \<Rightarrow> store \<Rightarrow> game \<times> store" where
  "createGame now name createdBy totalRounds s =
     (let i = gameIdCounter s;
          g = \<lparr> g_id = i, g_name = name, g_createdBy = createdBy, g_currentRound = 1,
                g_totalRounds = totalRounds, g_currentJudgeIndex = 0, g_status = Waiting,
                g_createdAt = now \<rparr>
      in (g, s\<lparr> gameIdCounter := i + 1, games := AList.update i g (games s) \<rparr>))"

definition getGame :: "store \<Rightarrow> int \<Rightarrow> game option" where
  "getGame s i = map_of (games s) i"

definition updateGame :: "int \<Rightarrow> (game \<Rightarrow> game) \<Rightarrow> store \<Rightarrow> store" where
  "updateGame i updates s =
     (case map_of (games s) i of
        None \<Rightarrow> s
      | Some g \<Rightarrow> s\<lparr> games := AList.update i (updates g) (games s) \<rparr>)"

subsection \<open>Player operations\<close>

definition addPlayerToGame :: "int \<Rightarrow> int \<Rightarrow> bool \<Rightarrow> store \<Rightarrow> player \<times> store" where
  "addPlayerToGame gameId userId isHost s =
     (let i = playerIdCounter s;
          p = \<lparr> pl_id = i, pl_gameId = gameId, pl_userId = userId, pl_score = 0,
                pl_isHost = isHost \<rparr>
      in (p, s\<lparr> playerIdCounter := i + 1, players := AList.update i p (players s) \<rparr>))"

definition getPlayersByGame :: "store \<Rightarrow> int \<Rightarrow> player list" where
  "getPlayersByGame s gameId = filter (\<lambda>p. pl_gameId p = gameId) (map snd (players s))"

definition getPlayerScore :: "store \<Rightarrow> int \<Rightarrow> int" where
  "getPlayerScore s playerId =
     (case map_of (players s) playerId of None \<Rightarrow> 0 | Some p \<Rightarrow> pl_score p)"

definition updatePlayerScore :: "int \<Rightarrow> int \<Rightarrow> store \<Rightarrow> int \<times> store" where
  "updatePlayerScore playerId scoreIncrement s =
     (case map_of (players s) playerId of
        None \<Rightarrow> (0, s)
      | Some p \<Rightarrow>
          (let updatedPlayer = p\<lparr> pl_score := pl_score p + scoreIncrement \<rparr>
           in (pl_score updatedPlayer,
               s\<lparr> players := AList.update playerId updatedPlayer (players s) \<rparr>)))"

subsection \<open>Round operations\<close>

definition createRound ::
  "int \<Rightarrow> int \<Rightarrow> int \<Rightarrow> string list \<Rightarrow> int \<Rightarrow> store \<Rightarrow> round \<times> store" where
  "createRound gameId roundNumber judgeId ws timeLimit s =
     (let i = roundIdCounter s;
          r = \<lparr> r_id = i, r_gameId = gameId, r_roundNumber = roundNumber, r_judgeId = judgeId,
                r_words = ws, r_status = Setup, r_timeLimit = timeLimit, r_endTime = None,
                r_winnerId = None \<rparr>
      in (r, s\<lparr> roundIdCounter := i + 1, rounds := AList.update i r (rounds s) \<rparr>))"

definition getRound :: "store \<Rightarrow> int \<Rightarrow> round option" where
  "getRound s i = map_of (rounds s) i"

definition updateRoundStatus :: "int \<Rightarrow> round_status \<Rightarrow> store \<Rightarrow> store" where
  "updateRoundStatus i status s =
     (case map_of (rounds s) i of
        None \<Rightarrow> s
      | Some r \<Rightarrow> s\<lparr> rounds := AList.update i (r\<lparr> r_status := status \<rparr>) (rounds s) \<rparr>)"

definition setRoundWinner :: "int \<Rightarrow> int \<Rightarrow> store \<Rightarrow> store" where
  "setRoundWinner i winnerId s =
     (case map_of (rounds s) i of
        None \<Rightarrow> s
      | Some r \<Rightarrow>
          s\<lparr> rounds :=
               AList.update i (r\<lparr> r_winnerId := Some winnerId, r_status := Completed \<rparr>)
                 (rounds s) \<rparr>)"

definition updateRoundEndTime :: "int \<Rightarrow> int \<Rightarrow> store \<Rightarrow> store" where
  "updateRoundEndTime i endTime s =
     (case map_of (rounds s) i of
        None \<Rightarrow> s
      | Some r \<Rightarrow> s\<lparr> rounds := AList.update i (r\<lparr> r_endTime := Some endTime \<rparr>) (rounds s) \<rparr>)"

subsection \<open>Poem operations\<close>

definition createPoem :: "int \<Rightarrow> int \<Rightarrow> jsstring \<Rightarrow> store \<Rightarrow> poem \<times> store" where
  "createPoem roundId playerId content s =
     (let i = poemIdCounter s;
          p = \<lparr> po_id = i, po_roundId = roundId, po_playerId = playerId, po_content = content,
                po_submitted = False, po_submittedAt = None \<rparr>
      in (p, s\<lparr> poemIdCounter := i + 1, poems := AList.update i p (poems s) \<rparr>))"

definition updatePoem :: "int \<Rightarrow> jsstring \<Rightarrow> store \<Rightarrow> poem option \<times> store" where
  "updatePoem i content s =
     (case map_of (poems s) i of
        None \<Rightarrow> (None, s)
      | Some p \<Rightarrow>
          (let updatedPoem = p\<lparr> po_content := content \<rparr>
           in (Some updatedPoem, s\<lparr> poems := AList.update i updatedPoem (poems s) \<rparr>)))"

definition submitPoem :: "int \<Rightarrow> int \<Rightarrow> store \<Rightarrow> poem option \<times> store" where
  "submitPoem now i s =
     (case map_of (poems s) i of
        None \<Rightarrow> (None, s)
      | Some p \<Rightarrow>
          (let updatedPoem = p\<lparr> po_submitted := True, po_submittedAt := Some now \<rparr>
           in (Some updatedPoem, s\<lparr> poems := AList.update i updatedPoem (poems s) \<rparr>)))"

definition getPoemsByRound :: "store \<Rightarrow> int \<Rightarrow> poem list" where
  "getPoemsByRound s roundId = filter (\<lambda>p. po_roundId p = roundId) (map snd (poems s))"

definition getPoem :: "store \<Rightarrow> int \<Rightarrow> poem option" where
  "getPoem s i = map_of (poems s) i"

section \<open>Word pool (shared/wordGenerator.ts)\<close>

text \<open>
  The pool in the order of the source: nature, time, emotions, abstract, objects,
  descriptive; twenty words each.
\<close>

definition poeticWords :: "string list" where
  "poeticWords =
    [
     ''ocean'', ''mountain'', ''forest'', ''river'', ''sky'',
     ''moon'', ''star'', ''sun'', ''cloud'', ''rain'',
     ''flower'', ''tree'', ''leaf'', ''thunder'', ''wind'',
     ''dawn'', ''dusk'', ''twilight'', ''sunrise'', ''sunset'',
     ''morning'', ''evening'', ''night'', ''day'', ''moment'',
     ''eternity'', ''forever'', ''instant'', ''season'', ''autumn'',
     ''winter'', ''spring'', ''summer'', ''time'', ''hour'',
     ''midnight'', ''memory'', ''yesterday'', ''tomorrow'', ''today'',
     ''love'', ''hope'', ''dream'', ''joy'', ''sorrow'',
     ''anger'', ''peace'', ''fear'', ''wonder'', ''desire'',
     ''passion'', ''longing'', ''grief'', ''delight'', ''despair'',
     ''courage'', ''faith'', ''trust'', ''loneliness'', ''serenity'',
     ''freedom'', ''truth'', ''beauty'', ''silence'', ''whisper'',
     ''shadow'', ''light'', ''darkness'', ''echo'', ''journey'',
     ''mirror'', ''reflection'', ''spirit'', ''soul'', ''destiny'',
     ''fate'', ''wisdom'', ''infinity'', ''mystery'', ''secret'',
     ''feather'', ''glass'', ''stone'', ''crystal'', ''candle'',
     ''flame'', ''door'', ''window'', ''bridge'', ''path'',
     ''treasure'', ''veil'', ''key'', ''crown'', ''sword'',
     ''book'', ''page'', ''letter'', ''portrait'', ''melody'',
     ''ancient'', ''eternal'', ''fragile'', ''broken'', ''golden'',
     ''silver'', ''velvet'', ''crimson'', ''azure'', ''emerald'',
     ''silent'', ''hollow'', ''sacred'', ''wild'', ''gentle'',
     ''fierce'', ''luminous'', ''hidden'', ''forgotten'', ''distant''
    ]"

text \<open>
  \<open>Math.random()\<close> is a parameter: \<open>random i\<close> is the value the \<open>i\<close>-th call returns, a
  number \<open>u\<close> with \<open>0 \<le> u < 1\<close>. The loop runs at most \<open>count\<close> times and one call is made
  per iteration. \<open>splice(randomIndex, 1)\<close> removes the element at \<open>randomIndex\<close>. The first
  argument of \<open>drawWords\<close> is the number of iterations that remain. The product
  \<open>Math.random() * availableWords.length\<close> is a product of doubles in the source and the
  exact product of the two numbers here; the proofs about the draw below use of the index
  only that it lies within the list.
\<close>

fun drawWords :: "nat \<Rightarrow> (nat \<Rightarrow> real) \<Rightarrow> nat \<Rightarrow> string list \<Rightarrow> string list \<Rightarrow> string list" where
  "drawWords 0 random i availableWords result = result"
| "drawWords (Suc n) random i availableWords result =
     (if length availableWords = 0 then result
      else
        (let randomIndex = nat \<lfloor>random i * real (length availableWords)\<rfloor>;
             selectedWord = availableWords ! randomIndex
         in drawWords n random (Suc i)
              (take randomIndex availableWords @ drop (Suc randomIndex) availableWords)
              (result @ [selectedWord])))"

definition generateRandomWords :: "(nat \<Rightarrow> real) \<Rightarrow> int \<Rightarrow> string list" where
  "generateRandomWords random count = drawWords (nat count) random 0 poeticWords []"

section \<open>Strings\<close>

text \<open>
  \<open>String.prototype.trim\<close> strips the code units of ECMAScript's WhiteSpace and
  LineTerminator productions from both ends.
\<close>

definition isWhiteSpace :: "16 word \<Rightarrow> bool" where
  "isWhiteSpace c \<longleftrightarrow>
     c \<in> {0x0009, 0x000A, 0x000B, 0x000C, 0x000D, 0x0020, 0x00A0, 0x1680,
          0x2000, 0x2001, 0x2002, 0x2003, 0x2004, 0x2005, 0x2006, 0x2007, 0x2008, 0x2009,
          0x200A, 0x2028, 0x2029, 0x202F, 0x205F, 0x3000, 0xFEFF}"

definition trim :: "jsstring \<Rightarrow> jsstring" where
  "trim str = rev (dropWhile isWhiteSpace (rev (dropWhile isWhiteSpace str)))"

section \<open>Request handlers (server/routes.ts)\<close>

text \<open>
  A handler takes the store and returns the response together with the store it leaves
  behind, so that a handler that answers with an error after a write shows the write.
  An error response is its HTTP status and its message; a success is its HTTP status (its
  JSON body is a view of the store the handler leaves behind). The clock (\<open>new Date()\<close>)
  and the random source are parameters. Requests are taken after parsing: ids are
  integers and a round status is one of the four values of the \<open>z.enum\<close>.
\<close>

datatype failure = Failure nat string

type_synonym response = "failure + nat"

subsection \<open>POST /games\<close>

text \<open>\<open>createGameRequestSchema\<close>: a name of 1 to 100 characters, 1 to 10 rounds, 2 to 5 players.\<close>

definition createGameRequestSchema :: "string \<Rightarrow> int \<Rightarrow> int list \<Rightarrow> bool" where
  "createGameRequestSchema name totalRounds playerIds \<longleftrightarrow>
     1 \<le> length name \<and> length name \<le> 100 \<and> 1 \<le> totalRounds \<and> totalRounds \<le> 10 \<and>
     2 \<le> length playerIds \<and> length playerIds \<le> 5"

text \<open>The first loop: one player record per entry, the entry at index 0 is the host.\<close>

fun addPlayers :: "int \<Rightarrow> nat \<Rightarrow> int list \<Rightarrow> store \<Rightarrow> store" where
  "addPlayers gameId i [] s = s"
| "addPlayers gameId i (playerId # rest) s =
     addPlayers gameId (Suc i) rest (snd (addPlayerToGame gameId playerId (i = 0) s))"

text \<open>The second loop: an empty poem for every entry other than the host's.\<close>

definition createGamePoems :: "int \<Rightarrow> int \<Rightarrow> int list \<Rightarrow> store \<Rightarrow> store" where
  "createGamePoems roundId hostId playerIds s =
     fold (\<lambda>playerId s'.
             if playerId \<noteq> hostId then snd (createPoem roundId playerId [] s') else s')
       playerIds s"

definition postGames ::
  "int \<Rightarrow> (nat \<Rightarrow> real) \<Rightarrow> string \<Rightarrow> int \<Rightarrow> int list \<Rightarrow> store \<Rightarrow> response \<times> store" where
  "postGames now random name totalRounds playerIds s =
     (if \<not> createGameRequestSchema name totalRounds playerIds
      then (Inl (Failure 400 ''Invalid game data''), s)
      else
        (let hostId = hd playerIds;
             (game, s1) = createGame now name hostId totalRounds s;
             s2 = addPlayers (g_id game) 0 playerIds s1;
             (rnd, s3) = createRound (g_id game) 1 hostId (generateRandomWords random 5) 300 s2;
             s4 = createGamePoems (r_id rnd) hostId playerIds s3
         in (Inr 201, s4)))"

subsection \<open>PUT /rounds/:id/status\<close>

text \<open>
  Times are in milliseconds since the epoch. The source adds the time limit to the seconds
  field of the local time (\<open>setSeconds(getSeconds() + timeLimit)\<close>), which is
  \<open>1000 * timeLimit\<close> milliseconds later as long as the offset of the local time zone does
  not change in between; the end time is written on that assumption.
\<close>

definition putRoundStatus :: "int \<Rightarrow> int \<Rightarrow> round_status \<Rightarrow> store \<Rightarrow> response \<times> store" where
  "putRoundStatus now roundId status s =
     (case getRound s roundId of
        None \<Rightarrow> (Inl (Failure 404 ''Round not found''), s)
      | Some rnd \<Rightarrow>
          (let s1 = (if status = Writing
                     then updateRoundEndTime roundId (now + 1000 * r_timeLimit rnd) s
                     else s);
               s2 = updateRoundStatus roundId status s1
           in (Inr 200, s2)))"

subsection \<open>PUT /poems/:id\<close>

definition putPoem :: "int \<Rightarrow> jsstring \<Rightarrow> store \<Rightarrow> response \<times> store" where
  "putPoem poemId content s =
     (case updatePoem poemId content s of
        (None, s1) \<Rightarrow> (Inl (Failure 404 ''Poem not found''), s1)
      | (Some updatedPoem, s1) \<Rightarrow> (Inr 200, s1))"

subsection \<open>POST /poems/:id/submit\<close>

text \<open>\<open>poems.every(p => p.submitted)\<close> over the poems of the round.\<close>

definition allSubmitted :: "store \<Rightarrow> int \<Rightarrow> bool" where
  "allSubmitted s roundId = list_all po_submitted (getPoemsByRound s roundId)"

definition postPoemSubmit :: "int \<Rightarrow> int \<Rightarrow> store \<Rightarrow> response \<times> store" where
  "postPoemSubmit now poemId s =
     (case getPoem s poemId of
        None \<Rightarrow> (Inl (Failure 404 ''Poem not found''), s)
      | Some poem \<Rightarrow>
          if trim (po_content poem) = [] then (Inl (Failure 400 ''Cannot submit empty poem''), s)
          else
            (let s1 = snd (submitPoem now poemId s)
             in case getRound s1 (po_roundId poem) of
                  None \<Rightarrow> (Inr 200, s1)
                | Some rnd \<Rightarrow>
                    if allSubmitted s1 (r_id rnd) \<and> r_status rnd = Writing
                    then (Inr 200, updateRoundStatus (r_id rnd) Judging s1)
                    else (Inr 200, s1)))"

subsection \<open>POST /rounds/:id/winner\<close>

definition postRoundWinner :: "int \<Rightarrow> int \<Rightarrow> store \<Rightarrow> response \<times> store" where
  "postRoundWinner roundId poemId s =
     (case getPoem s poemId of
        None \<Rightarrow> (Inl (Failure 404 ''Poem not found''), s)
      | Some poem \<Rightarrow>
          (let winnerId = po_playerId poem
           in case getRound s roundId of
                None \<Rightarrow> (Inl (Failure 404 ''Round not found''), s)
              | Some rnd \<Rightarrow>
                  (let s1 = setRoundWinner roundId winnerId s;
                       s2 = snd (updatePlayerScore winnerId 1 s1)
                   in (Inr 200, s2))))"

subsection \<open>POST /games/:id/next-round\<close>

text \<open>
  The judge rotation of the handler (from \<open>getPlayersByGame\<close> to \<open>nextJudgeId\<close>), given the
  game and its players: the next judge index and the user id of the player at that
  position. JavaScript's \<open>%\<close> truncates towards zero (\<open>smod\<close>); reading \<open>userId\<close> of an
  entry that is not there throws, and the handler's \<open>catch\<close> answers 500.
\<close>

definition nextJudge :: "game \<Rightarrow> player list \<Rightarrow> failure + (int \<times> int)" where
  "nextJudge game playersOfGame =
     (let playerCount = int (length playersOfGame)
      in if playerCount < 2 then Inl (Failure 400 ''Not enough players'')
         else
           (let nextJudgeIndex = (g_currentJudgeIndex game + 1) smod playerCount
            in if 0 \<le> nextJudgeIndex \<and> nextJudgeIndex < playerCount
               then Inr (nextJudgeIndex, pl_userId (playersOfGame ! nat nextJudgeIndex))
               else Inl (Failure 500 ''Error starting next round'')))"

text \<open>The loop of the handler: an empty poem for every player other than the judge.\<close>

definition nextRoundPoems :: "int \<Rightarrow> int \<Rightarrow> player list \<Rightarrow> store \<Rightarrow> store" where
  "nextRoundPoems roundId nextJudgeId playersOfGame s =
     fold (\<lambda>player s'.
             if pl_userId player \<noteq> nextJudgeId
             then snd (createPoem roundId (pl_id player) [] s') else s')
       playersOfGame s"

definition postNextRound :: "(nat \<Rightarrow> real) \<Rightarrow> int \<Rightarrow> store \<Rightarrow> response \<times> store" where
  "postNextRound random gameId s =
     (case getGame s gameId of
        None \<Rightarrow> (Inl (Failure 404 ''Game not found''), s)
      | Some game \<Rightarrow>
          if g_currentRound game \<ge> g_totalRounds game
          then (Inl (Failure 400 ''Game is already completed''),
                updateGame gameId (\<lambda>g. g\<lparr> g_status := GameCompleted \<rparr>) s)
          else
            (let playersOfGame = getPlayersByGame s gameId
             in case nextJudge game playersOfGame of
                  Inl err \<Rightarrow> (Inl err, s)
                | Inr (nextJudgeIndex, nextJudgeId) \<Rightarrow>
                    (let nextRoundNumber = g_currentRound game + 1;
                         s1 = updateGame gameId
                                (\<lambda>g. g\<lparr> g_currentRound := nextRoundNumber,
                                         g_currentJudgeIndex := nextJudgeIndex \<rparr>) s;
                         (newRound, s2) =
                           createRound gameId nextRoundNumber nextJudgeId
                             (generateRandomWords random 5) 300 s1;
                         s3 = nextRoundPoems (r_id newRound) nextJudgeId playersOfGame s2
                     in (Inr 200, s3))))"

section \<open>Well-formed stores\<close>

text \<open>
  What the handlers maintain from the empty store on: in each of the four maps the keys are
  distinct, every record is stored under its own id, every key is below the map's id
  counter, every player belongs to a game and every poem to a round whose id has been
  handed out.
\<close>

definition wf_map :: "('v \<Rightarrow> int) \<Rightarrow> int \<Rightarrow> (int \<times> 'v) list \<Rightarrow> bool" where
  "wf_map ident counter al \<longleftrightarrow>
     distinct (map fst al) \<and> list_all (\<lambda>(k, v). ident v = k \<and> k < counter) al"

definition wf_store :: "store \<Rightarrow> bool" where
  "wf_store s \<longleftrightarrow>
     wf_map g_id (gameIdCounter s) (games s) \<and>
     wf_map pl_id (playerIdCounter s) (players s) \<and>
     wf_map r_id (roundIdCounter s) (rounds s) \<and>
     wf_map po_id (poemIdCounter s) (poems s) \<and>
     list_all (\<lambda>(k, p). pl_gameId p < gameIdCounter s) (players s) \<and>
     list_all (\<lambda>(k, p). po_roundId p < roundIdCounter s) (poems s)"

text \<open>What a loop of \<open>addPlayerToGame\<close> or of \<open>createPoem\<close> leaves untouched.\<close>

definition same_but_players :: "store \<Rightarrow> store \<Rightarrow> bool" where
  "same_but_players s s' \<longleftrightarrow>
     games s' = games s \<and> rounds s' = rounds s \<and> poems s' = poems s \<and>
     gameIdCounter s' = gameIdCounter s \<and> roundIdCounter s' = roundIdCounter s \<and>
     poemIdCounter s' = poemIdCounter s"

definition same_but_poems :: "store \<Rightarrow> store \<Rightarrow> bool" where
  "same_but_poems s s' \<longleftrightarrow>
     games s' = games s \<and> players s' = players s \<and> rounds s' = rounds s \<and>
     gameIdCounter s' = gameIdCounter s \<and> playerIdCounter s' = playerIdCounter s \<and>
     roundIdCounter s' = roundIdCounter s"

section \<open>Non-judge poems\<close>

text \<open>
  The spec speaks of the non-judge poems of a round; the code has no such notion, so this
  definition follows the spec's words. A round names its judge by a user id. A poem of the
  first round of a game names its author by a user id, and a poem of a later round by the
  id of a player record, whose user is the author. A poem is a non-judge poem of a round
  when its author is not the judge of the round.
\<close>

definition authorIsNotJudge :: "store \<Rightarrow> round \<Rightarrow> int \<Rightarrow> bool" where
  "authorIsNotJudge s r playerId \<longleftrightarrow>
     (if r_roundNumber r = 1 then playerId \<noteq> r_judgeId r
      else (case map_of (players s) playerId of
              None \<Rightarrow> False
            | Some pl \<Rightarrow> pl_userId pl \<noteq> r_judgeId r))"

definition nonJudgePoem :: "store \<Rightarrow> round \<Rightarrow> poem \<Rightarrow> bool" where
  "nonJudgePoem s r q \<longleftrightarrow> authorIsNotJudge s r (po_playerId q)"

text \<open>
  The spec's \<open>allSubmitted\<close>: every non-judge poem of the round is submitted; and the
  condition under which a poem is the last one missing: every other non-judge poem of the
  round is submitted.
\<close>

definition allNonJudgeSubmitted :: "store \<Rightarrow> int \<Rightarrow> round \<Rightarrow> bool" where
  "allNonJudgeSubmitted s roundId r \<longleftrightarrow>
     list_all po_submitted (filter (nonJudgePoem s r) (getPoemsByRound s roundId))"

definition otherNonJudgeSubmitted :: "store \<Rightarrow> int \<Rightarrow> round \<Rightarrow> int \<Rightarrow> bool" where
  "otherNonJudgeSubmitted s roundId r poemId \<longleftrightarrow>
     list_all po_submitted
       (filter (\<lambda>q. nonJudgePoem s r q \<and> po_id q \<noteq> poemId) (getPoemsByRound s roundId))"

text \<open>
  What the handlers maintain on top of well-formedness: every game is in its first round
  or a later one, and every poem belongs to a stored round of which it is a non-judge
  poem.
\<close>

definition rounds_started :: "store \<Rightarrow> bool" where
  "rounds_started s \<longleftrightarrow> list_all (\<lambda>(k, g). 1 \<le> g_currentRound g) (games s)"

definition judge_has_no_poem :: "store \<Rightarrow> bool" where
  "judge_has_no_poem s \<longleftrightarrow>
     list_all (\<lambda>(k, q). case map_of (rounds s) (po_roundId q) of
                          None \<Rightarrow> False
                        | Some r \<Rightarrow> nonJudgePoem s r q) (poems s)"

definition store_inv :: "store \<Rightarrow> bool" where
  "store_inv s \<longleftrightarrow> wf_store s \<and> rounds_started s \<and> judge_has_no_poem s"

text \<open>A later store keeps every round with its number and judge and every player with its user.\<close>

definition keeps_judges :: "store \<Rightarrow> store \<Rightarrow> bool" where
  "keeps_judges s s' \<longleftrightarrow>
     (\<forall>i r. map_of (rounds s) i = Some r \<longrightarrow>
        (\<exists>r'. map_of (rounds s') i = Some r' \<and> r_roundNumber r' = r_roundNumber r \<and>
              r_judgeId r' = r_judgeId r)) \<and>
     (\<forall>i pl. map_of (players s) i = Some pl \<longrightarrow>
        (\<exists>pl'. map_of (players s') i = Some pl' \<and> pl_userId pl' = pl_userId pl))"

section \<open>A game played on the empty store\<close>

text \<open>
  The inputs used to run the handlers: a random source that always answers 0; the store
  after one \<open>POST /games\<close> on the empty store; and the store after the first round of
  that game has been played up to the last draft (the judge opens the writing phase and
  the author of poem 1 saves the text \<open>a\<close>) and up to the judging phase (the author
  submits the poem).
\<close>

definition alwaysZero :: "nat \<Rightarrow> real" where
  "alwaysZero i = 0"

definition newGame :: "int \<Rightarrow> int list \<Rightarrow> store" where
  "newGame totalRounds playerIds =
     snd (postGames 0 alwaysZero ''Poets'' totalRounds playerIds MemStorage)"

definition playToWriting :: "int list \<Rightarrow> store" where
  "playToWriting playerIds =
     snd (putPoem 1 [0x61] (snd (putRoundStatus 1000 1 Writing (newGame 3 playerIds))))"

definition playToJudging :: "int list \<Rightarrow> store" where
  "playToJudging playerIds = snd (postPoemSubmit 2000 1 (playToWriting playerIds))"

definition threePlayers :: "player list" where
  "threePlayers = getPlayersByGame (newGame 3 [3, 4, 5]) 1"

definition roundOneGame :: game where
  "roundOneGame = fst (createGame 0 ''Poets'' 3 3 MemStorage)"

text \<open>
  A game of three: users 3, 4 and 5; the judge has opened the writing phase of round 1 and
  both authors have saved a text.
\<close>

definition threeDrafts :: store where
  "threeDrafts =
     snd (putPoem 2 [0x62] (snd (putPoem 1 [0x61]
       (snd (putRoundStatus 1000 1 Writing (newGame 3 [3, 4, 5]))))))"

section \<open>Running the game\<close>

lemma firstFive:
  "generateRandomWords alwaysZero 5 = [''ocean'', ''mountain'', ''forest'', ''river'', ''sky'']"
  by (simp add: generateRandomWords_def poeticWords_def alwaysZero_def eval_nat_numeral)

lemma newGame_two:
  assumes "1 \<le> n" and "n \<le> 10" and "a \<noteq> b"
  shows "newGame n [a, b] =
     \<lparr> games = [(1, \<lparr> g_id = 1, g_name = ''Poets'', g_createdBy = a, g_currentRound = 1,
                     g_totalRounds = n, g_currentJudgeIndex = 0, g_status = Waiting,
                     g_createdAt = 0 \<rparr>)],
       players = [(1, \<lparr> pl_id = 1, pl_gameId = 1, pl_userId = a, pl_score = 0, pl_isHost = True \<rparr>),
                  (2, \<lparr> pl_id = 2, pl_gameId = 1, pl_userId = b, pl_score = 0, pl_isHost = False \<rparr>)],
       rounds = [(1, \<lparr> r_id = 1, r_gameId = 1, r_roundNumber = 1, r_judgeId = a,
                      r_words = [''ocean'', ''mountain'', ''forest'', ''river'', ''sky''],
                      r_status = Setup, r_timeLimit = 300, r_endTime = None, r_winnerId = None \<rparr>)],
       poems = [(1, \<lparr> po_id = 1, po_roundId = 1, po_playerId = b, po_content = [],
                     po_submitted = False, po_submittedAt = None \<rparr>)],
       gameIdCounter = 2, playerIdCounter = 3, roundIdCounter = 2, poemIdCounter = 2 \<rparr>"
  using assms
  by (simp add: newGame_def postGames_def createGameRequestSchema_def MemStorage_def firstFive
      createGame_def addPlayerToGame_def createRound_def createPoem_def createGamePoems_def
      Let_def)

lemma isWhiteSpace_a: "\<not> isWhiteSpace 0x61"
  by (simp add: isWhiteSpace_def)

lemma playToWriting_two:
  assumes "a \<noteq> b"
  shows "playToWriting [a, b] =
     \<lparr> games = [(1, \<lparr> g_id = 1, g_name = ''Poets'', g_createdBy = a, g_currentRound = 1,
                     g_totalRounds = 3, g_currentJudgeIndex = 0, g_status = Waiting,
                     g_createdAt = 0 \<rparr>)],
       players = [(1, \<lparr> pl_id = 1, pl_gameId = 1, pl_userId = a, pl_score = 0, pl_isHost = True \<rparr>),
                  (2, \<lparr> pl_id = 2, pl_gameId = 1, pl_userId = b, pl_score = 0, pl_isHost = False \<rparr>)],
       rounds = [(1, \<lparr> r_id = 1, r_gameId = 1, r_roundNumber = 1, r_judgeId = a,
                      r_words = [''ocean'', ''mountain'', ''forest'', ''river'', ''sky''],
                      r_status = Writing, r_timeLimit = 300, r_endTime = Some 301000,
                      r_winnerId = None \<rparr>)],
       poems = [(1, \<lparr> po_id = 1, po_roundId = 1, po_playerId = b, po_content = [0x61],
                     po_submitted = False, po_submittedAt = None \<rparr>)],
       gameIdCounter = 2, playerIdCounter = 3, roundIdCounter = 2, poemIdCounter = 2 \<rparr>"
  using assms
  by (simp add: playToWriting_def newGame_two putRoundStatus_def putPoem_def Let_def
      getRound_def updateRoundEndTime_def updateRoundStatus_def updatePoem_def)

lemma playToJudging_two:
  assumes "a \<noteq> b"
  shows "playToJudging [a, b] =
     \<lparr> games = [(1, \<lparr> g_id = 1, g_name = ''Poets'', g_createdBy = a, g_currentRound = 1,
                     g_totalRounds = 3, g_currentJudgeIndex = 0, g_status = Waiting,
                     g_createdAt = 0 \<rparr>)],
       players = [(1, \<lparr> pl_id = 1, pl_gameId = 1, pl_userId = a, pl_score = 0, pl_isHost = True \<rparr>),
                  (2, \<lparr> pl_id = 2, pl_gameId = 1, pl_userId = b, pl_score = 0, pl_isHost = False \<rparr>)],
       rounds = [(1, \<lparr> r_id = 1, r_gameId = 1, r_roundNumber = 1, r_judgeId = a,
                      r_words = [''ocean'', ''mountain'', ''forest'', ''river'', ''sky''],
                      r_status = Judging, r_timeLimit = 300, r_endTime = Some 301000,
                      r_winnerId = None \<rparr>)],
       poems = [(1, \<lparr> po_id = 1, po_roundId = 1, po_playerId = b, po_content = [0x61],
                     po_submitted = True, po_submittedAt = Some 2000 \<rparr>)],
       gameIdCounter = 2, playerIdCounter = 3, roundIdCounter = 2, poemIdCounter = 2 \<rparr>"
  using assms
  by (simp add: playToJudging_def playToWriting_two postPoemSubmit_def
      allSubmitted_def trim_def isWhiteSpace_a Let_def
      getRound_def updateRoundStatus_def getPoem_def submitPoem_def getPoemsByRound_def)

section \<open>Round status\<close>

text \<open>
  C1 (as the code has it). \<open>PUT /rounds/:id/status\<close> checks nothing but that the round
  exists: for every round in the store, whatever its current status, and for each of the
  four statuses, the request succeeds with 200 and the round's status is the requested
  one afterwards. No transition is refused.
\<close>

theorem putRoundStatus_sets_any_status:
  assumes "getRound s roundId \<noteq> None"
  shows "fst (putRoundStatus now roundId status s) = Inr 200 \<and>
         map_option r_status (getRound (snd (putRoundStatus now roundId status s)) roundId) =
           Some status"
  using assms
  by (auto simp: putRoundStatus_def getRound_def updateRoundStatus_def updateRoundEndTime_def
      Let_def update_conv' split: option.splits)

theorem putRoundStatus_sets_any_status_witness:
  "getRound (newGame 3 [3, 4]) 1 \<noteq> None \<and>
   fst (putRoundStatus 5 1 Judging (newGame 3 [3, 4])) = Inr 200 \<and>
   map_option r_status (getRound (snd (putRoundStatus 5 1 Judging (newGame 3 [3, 4]))) 1) =
     Some Judging"
proof -
  have h: "getRound (newGame 3 [3, 4]) 1 \<noteq> None"
    by (simp add: newGame_two getRound_def)
  show ?thesis
    using h putRoundStatus_sets_any_status [OF h, of 5 Judging] by simp
qed

text \<open>
  C1 as stated fails: on the round of a new game (status setup) the request for
  \<open>completed\<close> skips two states and succeeds, and on the completed round the request for
  \<open>setup\<close> succeeds and moves the status backwards.
\<close>

theorem status_moves_backwards_counterexample:
  "map_option r_status (getRound (newGame 3 [3, 4]) 1) = Some Setup \<and>
   fst (putRoundStatus 5 1 Completed (newGame 3 [3, 4])) = Inr 200 \<and>
   map_option r_status (getRound (snd (putRoundStatus 5 1 Completed (newGame 3 [3, 4]))) 1) =
     Some Completed \<and>
   fst (putRoundStatus 6 1 Setup (snd (putRoundStatus 5 1 Completed (newGame 3 [3, 4])))) =
     Inr 200 \<and>
   map_option r_status
     (getRound (snd (putRoundStatus 6 1 Setup
        (snd (putRoundStatus 5 1 Completed (newGame 3 [3, 4]))))) 1) = Some Setup"
  by (simp add: newGame_two putRoundStatus_def getRound_def updateRoundStatus_def Let_def)

section \<open>Poem content\<close>

text \<open>
  C4 (as the code has it). \<open>PUT /poems/:id\<close> checks nothing but that the poem exists:
  for every poem in the store, whatever the status of its round and whether or not it has
  been submitted, the request succeeds with 200 and overwrites the content with the text
  sent; the poem's other fields, \<open>submitted\<close> and \<open>submittedAt\<close> among them, are as before.
\<close>

theorem putPoem_overwrites_content:
  assumes "getPoem s poemId = Some p"
  shows "fst (putPoem poemId content s) = Inr 200 \<and>
         getPoem (snd (putPoem poemId content s)) poemId = Some (p\<lparr> po_content := content \<rparr>)"
  using assms
  by (simp add: putPoem_def updatePoem_def getPoem_def Let_def update_conv')

theorem putPoem_overwrites_content_witness:
  "getPoem (playToJudging [3, 4]) 1 =
     Some \<lparr> po_id = 1, po_roundId = 1, po_playerId = 4, po_content = [0x61],
            po_submitted = True, po_submittedAt = Some 2000 \<rparr> \<and>
   fst (putPoem 1 [0x62] (playToJudging [3, 4])) = Inr 200 \<and>
   getPoem (snd (putPoem 1 [0x62] (playToJudging [3, 4]))) 1 =
     Some \<lparr> po_id = 1, po_roundId = 1, po_playerId = 4, po_content = [0x62],
            po_submitted = True, po_submittedAt = Some 2000 \<rparr>"
proof -
  have h: "getPoem (playToJudging [3, 4]) 1 =
     Some \<lparr> po_id = 1, po_roundId = 1, po_playerId = 4, po_content = [0x61],
            po_submitted = True, po_submittedAt = Some 2000 \<rparr>"
    by (simp add: playToJudging_two getPoem_def)
  show ?thesis
    using h putPoem_overwrites_content [OF h, of "[0x62]"] by simp
qed

text \<open>
  C4 as stated fails: poem 1 of the game has been submitted with the text \<open>a\<close> and its
  round is in judging, and the request with the text \<open>b\<close> still succeeds and replaces the
  content.
\<close>

theorem submitted_poem_is_overwritten_counterexample:
  "map_option r_status (getRound (playToJudging [3, 4]) 1) = Some Judging \<and>
   map_option po_submitted (getPoem (playToJudging [3, 4]) 1) = Some True \<and>
   map_option po_content (getPoem (playToJudging [3, 4]) 1) = Some [0x61] \<and>
   fst (putPoem 1 [0x62] (playToJudging [3, 4])) = Inr 200 \<and>
   map_option po_content (getPoem (snd (putPoem 1 [0x62] (playToJudging [3, 4]))) 1) =
     Some [0x62]"
  by (simp add: playToJudging_two putPoem_def updatePoem_def getPoem_def getRound_def Let_def)

section \<open>Submission\<close>

lemma dropWhile_all_iff: "(\<forall>c \<in> set (dropWhile P xs). P c) \<longleftrightarrow> (\<forall>c \<in> set xs. P c)"
proof
  assume all: "\<forall>c \<in> set (dropWhile P xs). P c"
  have "dropWhile P xs = []"
  proof (cases "dropWhile P xs")
    case Nil
    then show ?thesis .
  next
    case (Cons c cs)
    then have "\<not> P c"
      using hd_dropWhile [of P xs] by auto
    with Cons all show ?thesis by auto
  qed
  then show "\<forall>c \<in> set xs. P c"
    by (simp add: dropWhile_eq_Nil_conv)
next
  assume "\<forall>c \<in> set xs. P c"
  then show "\<forall>c \<in> set (dropWhile P xs). P c"
    by (auto dest: set_dropWhileD)
qed

lemma trim_empty_iff: "trim str = [] \<longleftrightarrow> list_all isWhiteSpace str"
  unfolding trim_def list_all_iff
  using dropWhile_all_iff [of isWhiteSpace str]
  by (simp add: dropWhile_eq_Nil_conv)

text \<open>
  C7. For a poem in the store whose content is empty or consists of white space only,
  \<open>POST /poems/:id/submit\<close> answers 400 \<open>Cannot submit empty poem\<close> and leaves the
  whole store, hence the poem, its \<open>submitted\<close> flag and its missing timestamp, as it
  was. For a poem whose content has a character that is not white space the request
  succeeds, and the poem afterwards is the poem before with \<open>submitted = true\<close> and the
  time of the request as \<open>submittedAt\<close>.
\<close>

theorem postPoemSubmit_blank_or_not:
  assumes "getPoem s poemId = Some p"
  shows "(if list_all isWhiteSpace (po_content p)
          then postPoemSubmit now poemId s = (Inl (Failure 400 ''Cannot submit empty poem''), s)
          else fst (postPoemSubmit now poemId s) = Inr 200 \<and>
               getPoem (snd (postPoemSubmit now poemId s)) poemId =
                 Some (p\<lparr> po_submitted := True, po_submittedAt := Some now \<rparr>))"
  using assms
  by (auto simp: postPoemSubmit_def trim_empty_iff getPoem_def submitPoem_def Let_def
      updateRoundStatus_def getRound_def update_conv' split: option.splits)

theorem postPoemSubmit_blank_or_not_witness:
  "getPoem (snd (putPoem 1 [0x20, 0x0A] (newGame 3 [3, 4]))) 1 =
     Some \<lparr> po_id = 1, po_roundId = 1, po_playerId = 4, po_content = [0x20, 0x0A],
            po_submitted = False, po_submittedAt = None \<rparr> \<and>
   postPoemSubmit 9 1 (snd (putPoem 1 [0x20, 0x0A] (newGame 3 [3, 4]))) =
     (Inl (Failure 400 ''Cannot submit empty poem''),
      snd (putPoem 1 [0x20, 0x0A] (newGame 3 [3, 4]))) \<and>
   getPoem (snd (putPoem 1 [0x20, 0x61] (newGame 3 [3, 4]))) 1 =
     Some \<lparr> po_id = 1, po_roundId = 1, po_playerId = 4, po_content = [0x20, 0x61],
            po_submitted = False, po_submittedAt = None \<rparr> \<and>
   fst (postPoemSubmit 9 1 (snd (putPoem 1 [0x20, 0x61] (newGame 3 [3, 4])))) = Inr 200 \<and>
   getPoem (snd (postPoemSubmit 9 1 (snd (putPoem 1 [0x20, 0x61] (newGame 3 [3, 4]))))) 1 =
     Some \<lparr> po_id = 1, po_roundId = 1, po_playerId = 4, po_content = [0x20, 0x61],
            po_submitted = True, po_submittedAt = Some 9 \<rparr>"
proof -
  have blank: "getPoem (snd (putPoem 1 [0x20, 0x0A] (newGame 3 [3, 4]))) 1 =
     Some \<lparr> po_id = 1, po_roundId = 1, po_playerId = 4, po_content = [0x20, 0x0A],
            po_submitted = False, po_submittedAt = None \<rparr>"
    by (simp add: newGame_two putPoem_def updatePoem_def getPoem_def Let_def)
  have written: "getPoem (snd (putPoem 1 [0x20, 0x61] (newGame 3 [3, 4]))) 1 =
     Some \<lparr> po_id = 1, po_roundId = 1, po_playerId = 4, po_content = [0x20, 0x61],
            po_submitted = False, po_submittedAt = None \<rparr>"
    by (simp add: newGame_two putPoem_def updatePoem_def getPoem_def Let_def)
  show ?thesis
    using blank written postPoemSubmit_blank_or_not [OF blank, of 9]
      postPoemSubmit_blank_or_not [OF written, of 9]
    by (simp add: isWhiteSpace_def)
qed

section \<open>The last round\<close>

text \<open>
  C10. For a game in the store whose \<open>currentRound\<close> has reached \<open>totalRounds\<close>,
  \<open>POST /games/:id/next-round\<close> answers 400 \<open>Game is already completed\<close>, and the store
  it leaves behind is the store before with the status of that game set to \<open>completed\<close>:
  no round and no poem is created and no counter moves, but the game record is written
  although the request fails.
\<close>

theorem postNextRound_exhausted:
  assumes "getGame s gameId = Some g"
    and "g_currentRound g \<ge> g_totalRounds g"
  shows "postNextRound random gameId s =
           (Inl (Failure 400 ''Game is already completed''),
            s\<lparr> games := AList.update gameId (g\<lparr> g_status := GameCompleted \<rparr>) (games s) \<rparr>) \<and>
         getGame (snd (postNextRound random gameId s)) gameId =
           Some (g\<lparr> g_status := GameCompleted \<rparr>) \<and>
         rounds (snd (postNextRound random gameId s)) = rounds s \<and>
         poems (snd (postNextRound random gameId s)) = poems s"
  using assms
  by (simp add: postNextRound_def getGame_def updateGame_def update_conv')

theorem postNextRound_exhausted_witness:
  "getGame (newGame 1 [3, 4]) 1 =
     Some \<lparr> g_id = 1, g_name = ''Poets'', g_createdBy = 3, g_currentRound = 1,
            g_totalRounds = 1, g_currentJudgeIndex = 0, g_status = Waiting, g_createdAt = 0 \<rparr> \<and>
   fst (postNextRound alwaysZero 1 (newGame 1 [3, 4])) =
     Inl (Failure 400 ''Game is already completed'') \<and>
   getGame (snd (postNextRound alwaysZero 1 (newGame 1 [3, 4]))) 1 =
     Some \<lparr> g_id = 1, g_name = ''Poets'', g_createdBy = 3, g_currentRound = 1,
            g_totalRounds = 1, g_currentJudgeIndex = 0, g_status = GameCompleted,
            g_createdAt = 0 \<rparr> \<and>
   rounds (snd (postNextRound alwaysZero 1 (newGame 1 [3, 4]))) = rounds (newGame 1 [3, 4]) \<and>
   poems (snd (postNextRound alwaysZero 1 (newGame 1 [3, 4]))) = poems (newGame 1 [3, 4])"
proof -
  have h: "getGame (newGame 1 [3, 4]) 1 =
     Some \<lparr> g_id = 1, g_name = ''Poets'', g_createdBy = 3, g_currentRound = 1,
            g_totalRounds = 1, g_currentJudgeIndex = 0, g_status = Waiting, g_createdAt = 0 \<rparr>"
    by (simp add: newGame_two getGame_def)
  show ?thesis
    using h postNextRound_exhausted [OF h, of alwaysZero]
    by (simp add: getGame_def update_conv')
qed

section \<open>Drawing words\<close>

lemma distinct_poeticWords: "distinct poeticWords"
  by (simp add: poeticWords_def)

lemma length_poeticWords: "length poeticWords = 120"
  by (simp add: poeticWords_def)

lemma randomIndex_in_range:
  assumes "0 \<le> u" and "u < 1" and "0 < n"
  shows "nat \<lfloor>u * real n\<rfloor> < n"
proof -
  have "u * real n < real n"
    using assms by simp
  then have "\<lfloor>u * real n\<rfloor> < int n"
    by (simp add: floor_less_iff)
  moreover have "0 \<le> \<lfloor>u * real n\<rfloor>"
    using assms by simp
  ultimately show ?thesis by linarith
qed

lemma drawWords_draws:
  assumes "\<forall>i. 0 \<le> random i \<and> random i < 1"
    and "distinct (result @ availableWords)"
  shows "distinct (drawWords n random i availableWords result) \<and>
         set (drawWords n random i availableWords result) \<subseteq> set result \<union> set availableWords \<and>
         length (drawWords n random i availableWords result) =
           length result + min n (length availableWords)"
  using assms(2)
proof (induction n arbitrary: i availableWords result)
  case 0
  then show ?case by simp
next
  case (Suc n)
  show ?case
  proof (cases "availableWords = []")
    case True
    with Suc.prems show ?thesis by simp
  next
    case False
    define k where "k = nat \<lfloor>random i * real (length availableWords)\<rfloor>"
    define rest where "rest = take k availableWords @ drop (Suc k) availableWords"
    have k: "k < length availableWords"
      unfolding k_def using assms(1) False by (intro randomIndex_in_range) auto
    then have split: "availableWords = take k availableWords @ (availableWords ! k) # drop (Suc k) availableWords"
      by (rule id_take_nth_drop)
    have sets: "set availableWords = insert (availableWords ! k) (set rest)"
      unfolding rest_def by (subst split) auto
    have len: "length availableWords = Suc (length rest)"
      unfolding rest_def using k by (subst split) simp
    have dist: "distinct ((result @ [availableWords ! k]) @ rest)"
    proof -
      have "distinct (result @ take k availableWords @ (availableWords ! k) # drop (Suc k) availableWords)"
        using Suc.prems split by simp
      then show ?thesis
        unfolding rest_def by auto
    qed
    have step: "drawWords (Suc n) random i availableWords result =
                drawWords n random (Suc i) rest (result @ [availableWords ! k])"
      using False by (simp add: k_def rest_def Let_def)
    from Suc.IH [OF dist, of "Suc i"] show ?thesis
      unfolding step using sets len by auto
  qed
qed

text \<open>
  C9. Whatever the random source answers (each answer \<open>u\<close> with \<open>0 \<le> u < 1\<close>),
  \<open>generateRandomWords count\<close> returns words of the pool without repetition; for
  \<open>0 \<le> count \<le> 120\<close>, the size of the pool, it returns exactly \<open>count\<close> words, and for a
  larger \<open>count\<close> it returns 120 words, fewer than \<open>count\<close>.
\<close>

theorem generateRandomWords_draws:
  assumes "\<forall>i. 0 \<le> random i \<and> random i < 1"
  shows "distinct (generateRandomWords random count) \<and>
         set (generateRandomWords random count) \<subseteq> set poeticWords \<and>
         length poeticWords = 120 \<and>
         (0 \<le> count \<and> count \<le> 120 \<longrightarrow> int (length (generateRandomWords random count)) = count) \<and>
         (120 < count \<longrightarrow> length (generateRandomWords random count) = 120)"
  using drawWords_draws [OF assms, of "[]" poeticWords "nat count" 0]
  by (auto simp: generateRandomWords_def distinct_poeticWords length_poeticWords)

theorem generateRandomWords_draws_witness:
  "(\<forall>i. 0 \<le> alwaysZero i \<and> alwaysZero i < 1) \<and>
   generateRandomWords alwaysZero 5 = [''ocean'', ''mountain'', ''forest'', ''river'', ''sky''] \<and>
   distinct (generateRandomWords alwaysZero 5) \<and>
   set (generateRandomWords alwaysZero 5) \<subseteq> set poeticWords \<and>
   int (length (generateRandomWords alwaysZero 5)) = 5 \<and>
   length (generateRandomWords alwaysZero 121) = 120"
proof -
  have h: "\<forall>i. 0 \<le> alwaysZero i \<and> alwaysZero i < 1"
    by (simp add: alwaysZero_def)
  show ?thesis
    using h generateRandomWords_draws [OF h, of 5] generateRandomWords_draws [OF h, of 121]
    by (simp add: firstFive)
qed

section \<open>Judge rotation\<close>

text \<open>
  C8. For a game whose judge index is not negative and a roster of at least two players,
  the rotation of \<open>POST /games/:id/next-round\<close> yields the index
  \<open>(currentJudgeIndex + 1) mod rosterSize\<close>, which is a position of the roster, and the
  user id of the player at that position; on a roster of three the index goes from 0 to 1,
  from 1 to 2 and from 2 to 0. For a roster of fewer than two players it answers 400
  \<open>Not enough players\<close>.
\<close>

theorem nextJudge_rotation:
  "(2 \<le> length ps \<and> 0 \<le> g_currentJudgeIndex g \<longrightarrow>
      nextJudge g ps =
        Inr ((g_currentJudgeIndex g + 1) mod int (length ps),
             pl_userId (ps ! nat ((g_currentJudgeIndex g + 1) mod int (length ps)))) \<and>
      nat ((g_currentJudgeIndex g + 1) mod int (length ps)) < length ps) \<and>
   (length ps = 3 \<longrightarrow>
      map (\<lambda>i. map_sum id fst (nextJudge (g\<lparr> g_currentJudgeIndex := i \<rparr>) ps)) [0, 1, 2] =
        [Inr 1, Inr 2, Inr 0]) \<and>
   (length ps < 2 \<longrightarrow> nextJudge g ps = Inl (Failure 400 ''Not enough players''))"
proof -
  have rot: "nextJudge g ps =
        Inr ((g_currentJudgeIndex g + 1) mod int (length ps),
             pl_userId (ps ! nat ((g_currentJudgeIndex g + 1) mod int (length ps))))"
    if "2 \<le> length ps" and "0 \<le> g_currentJudgeIndex g" for g :: game
  proof -
    have "(g_currentJudgeIndex g + 1) smod int (length ps) =
          (g_currentJudgeIndex g + 1) mod int (length ps)"
      using that by (simp add: signed_modulo_int_def sgn_if)
    moreover have pos: "0 < int (length ps)"
      using that by linarith
    moreover have "0 \<le> (g_currentJudgeIndex g + 1) mod int (length ps)"
      by (rule pos_mod_sign [OF pos])
    moreover have "(g_currentJudgeIndex g + 1) mod int (length ps) < int (length ps)"
      by (rule pos_mod_bound [OF pos])
    ultimately show ?thesis
      using that by (simp add: nextJudge_def Let_def)
  qed
  have small: "nextJudge g ps = Inl (Failure 400 ''Not enough players'')" if "length ps < 2"
    using that by (simp add: nextJudge_def)
  have inrange: "nat ((g_currentJudgeIndex g + 1) mod int (length ps)) < length ps"
    if "2 \<le> length ps"
  proof -
    have pos: "0 < int (length ps)"
      using that by linarith
    show ?thesis
      using pos_mod_sign [OF pos, of "g_currentJudgeIndex g + 1"]
        pos_mod_bound [OF pos, of "g_currentJudgeIndex g + 1"]
      by linarith
  qed
  have cycle: "map (\<lambda>i. map_sum id fst (nextJudge (g\<lparr> g_currentJudgeIndex := i \<rparr>) ps)) [0, 1, 2] =
        [Inr 1, Inr 2, Inr 0]" if "length ps = 3"
    using that by (simp add: rot)
  from rot small inrange cycle show ?thesis by blast
qed

lemma threePlayers_eval:
  "threePlayers =
     [\<lparr> pl_id = 1, pl_gameId = 1, pl_userId = 3, pl_score = 0, pl_isHost = True \<rparr>,
      \<lparr> pl_id = 2, pl_gameId = 1, pl_userId = 4, pl_score = 0, pl_isHost = False \<rparr>,
      \<lparr> pl_id = 3, pl_gameId = 1, pl_userId = 5, pl_score = 0, pl_isHost = False \<rparr>]"
  by (simp add: threePlayers_def getPlayersByGame_def newGame_def postGames_def
      createGameRequestSchema_def MemStorage_def createGame_def addPlayerToGame_def
      createRound_def createPoem_def createGamePoems_def Let_def)

theorem nextJudge_rotation_witness:
  "nextJudge roundOneGame threePlayers = Inr (1, 4) \<and>
   nextJudge (roundOneGame\<lparr> g_currentJudgeIndex := 2 \<rparr>) threePlayers = Inr (0, 3) \<and>
   map (\<lambda>i. map_sum id fst (nextJudge (roundOneGame\<lparr> g_currentJudgeIndex := i \<rparr>) threePlayers))
     [0, 1, 2] = [Inr 1, Inr 2, Inr 0] \<and>
   nextJudge roundOneGame (take 1 threePlayers) = Inl (Failure 400 ''Not enough players'')"
proof -
  have g: "g_currentJudgeIndex roundOneGame = 0"
    by (simp add: roundOneGame_def createGame_def MemStorage_def Let_def)
  show ?thesis
    using nextJudge_rotation [of threePlayers roundOneGame]
      nextJudge_rotation [of threePlayers "roundOneGame\<lparr> g_currentJudgeIndex := 2 \<rparr>"]
      nextJudge_rotation [of "take 1 threePlayers" roundOneGame]
    by (simp add: g threePlayers_eval)
qed

section \<open>The handlers keep the store well formed\<close>

lemma update_fresh: "k \<notin> fst ` set al \<Longrightarrow> AList.update k v al = al @ [(k, v)]"
  by (induction al) auto

lemma set_update_subset: "set (AList.update k v al) \<subseteq> insert (k, v) (set al)"
  by (induction al) auto

lemma wf_map_entry:
  assumes "wf_map ident c al" and "(k, v) \<in> set al"
  shows "ident v = k \<and> k < c"
proof -
  from assms(1) have "\<forall>x \<in> set al. case x of (k, v) \<Rightarrow> ident v = k \<and> k < c"
    by (simp add: wf_map_def list_all_iff)
  from this assms(2) have "case (k, v) of (k, v) \<Rightarrow> ident v = k \<and> k < c"
    by (rule bspec)
  then show ?thesis by simp
qed

lemma wf_map_fresh:
  assumes "wf_map ident c al"
  shows "c \<notin> fst ` set al"
proof
  assume "c \<in> fst ` set al"
  then obtain v where "(c, v) \<in> set al" by auto
  from wf_map_entry [OF assms this] show False by simp
qed

lemma wf_map_lookup:
  assumes "wf_map ident c al" and "map_of al k = Some v"
  shows "ident v = k" and "k < c"
  using wf_map_entry [OF assms(1) map_of_SomeD [OF assms(2)]] by simp_all

lemma wf_mapI:
  assumes "distinct (map fst al)" and "\<And>k v. (k, v) \<in> set al \<Longrightarrow> ident v = k \<and> k < c"
  shows "wf_map ident c al"
  using assms unfolding wf_map_def list_all_iff by blast

lemma wf_map_distinct: "wf_map ident c al \<Longrightarrow> distinct (map fst al)"
  by (simp add: wf_map_def)

lemma wf_map_create:
  assumes "wf_map ident c al" and "ident v = c"
  shows "AList.update c v al = al @ [(c, v)]" and "wf_map ident (c + 1) (AList.update c v al)"
proof -
  have fresh: "c \<notin> fst ` set al"
    using assms(1) by (rule wf_map_fresh)
  then show app: "AList.update c v al = al @ [(c, v)]"
    by (rule update_fresh)
  show "wf_map ident (c + 1) (AList.update c v al)"
  proof (rule wf_mapI)
    show "distinct (map fst (AList.update c v al))"
      using wf_map_distinct [OF assms(1)] by (rule distinct_update)
  next
    fix k w
    assume "(k, w) \<in> set (AList.update c v al)"
    then have "(k, w) = (c, v) \<or> (k, w) \<in> set al"
      unfolding app by simp
    then show "ident w = k \<and> k < c + 1"
    proof
      assume "(k, w) = (c, v)"
      with assms(2) show ?thesis by simp
    next
      assume "(k, w) \<in> set al"
      from wf_map_entry [OF assms(1) this] show ?thesis by simp
    qed
  qed
qed

lemma wf_map_modify:
  assumes "wf_map ident c al" and "map_of al k = Some v" and "ident v' = ident v"
  shows "wf_map ident c (AList.update k v' al)"
proof (rule wf_mapI)
  show "distinct (map fst (AList.update k v' al))"
    using wf_map_distinct [OF assms(1)] by (rule distinct_update)
next
  fix j w
  assume "(j, w) \<in> set (AList.update k v' al)"
  then have "(j, w) = (k, v') \<or> (j, w) \<in> set al"
    using set_update_subset [of k v' al] by blast
  then show "ident w = j \<and> j < c"
  proof
    assume "(j, w) = (k, v')"
    with wf_map_lookup [OF assms(1,2)] assms(3) show ?thesis by simp
  next
    assume "(j, w) \<in> set al"
    from wf_map_entry [OF assms(1) this] show ?thesis .
  qed
qed

lemma list_all_modify:
  assumes "list_all (\<lambda>(k, v). P v) al" and "map_of al k = Some v" and "P v \<Longrightarrow> P v'"
  shows "list_all (\<lambda>(k, v). P v) (AList.update k v' al)"
proof -
  have all: "P w" if "(j, w) \<in> set al" for j w
    using assms(1) that unfolding list_all_iff by blast
  have "P v"
    using all map_of_SomeD [OF assms(2)] by blast
  then have "P v'" by (rule assms(3))
  have "P w" if "(j, w) \<in> set (AList.update k v' al)" for j w
  proof -
    from that have "(j, w) = (k, v') \<or> (j, w) \<in> set al"
      using set_update_subset [of k v' al] by blast
    then show ?thesis
      using \<open>P v'\<close> all by blast
  qed
  then show ?thesis
    unfolding list_all_iff by blast
qed

lemma list_all_less_mono:
  assumes "list_all (\<lambda>(k, v). f v < c) al" and "c \<le> (c' :: int)"
  shows "list_all (\<lambda>(k, v). f v < c') al"
proof -
  have "f w < c" if "(j, w) \<in> set al" for j w
    using assms(1) that unfolding list_all_iff by blast
  then have "f w < c'" if "(j, w) \<in> set al" for j w
    using assms(2) that by fastforce
  then show ?thesis
    unfolding list_all_iff by blast
qed

lemma wf_store_MemStorage: "wf_store MemStorage"
  by (simp add: wf_store_def wf_map_def MemStorage_def)

lemma wf_storeD:
  assumes "wf_store s"
  shows "wf_map g_id (gameIdCounter s) (games s)"
    and "wf_map pl_id (playerIdCounter s) (players s)"
    and "wf_map r_id (roundIdCounter s) (rounds s)"
    and "wf_map po_id (poemIdCounter s) (poems s)"
    and "list_all (\<lambda>(k, p). pl_gameId p < gameIdCounter s) (players s)"
    and "list_all (\<lambda>(k, p). po_roundId p < roundIdCounter s) (poems s)"
  using assms by (simp_all add: wf_store_def)

lemma wf_store_createGame:
  assumes "wf_store s"
  shows "wf_store (snd (createGame now name createdBy totalRounds s))"
proof -
  let ?g = "\<lparr> g_id = gameIdCounter s, g_name = name, g_createdBy = createdBy,
              g_currentRound = 1, g_totalRounds = totalRounds, g_currentJudgeIndex = 0,
              g_status = Waiting, g_createdAt = now \<rparr>"
  have "wf_map g_id (gameIdCounter s + 1) (AList.update (gameIdCounter s) ?g (games s))"
    by (rule wf_map_create(2) [OF wf_storeD(1) [OF assms]]) simp
  moreover have "list_all (\<lambda>(k, p). pl_gameId p < gameIdCounter s + 1) (players s)"
    by (rule list_all_less_mono [OF wf_storeD(5) [OF assms]]) simp
  ultimately show ?thesis
    using wf_storeD [OF assms] by (simp add: wf_store_def createGame_def Let_def)
qed

lemma wf_store_updateGame:
  assumes "wf_store s" and "\<And>g. g_id (updates g) = g_id g"
  shows "wf_store (updateGame i updates s)"
proof (cases "map_of (games s) i")
  case None
  with assms(1) show ?thesis by (simp add: updateGame_def)
next
  case (Some g)
  have "wf_map g_id (gameIdCounter s) (AList.update i (updates g) (games s))"
    by (rule wf_map_modify [OF wf_storeD(1) [OF assms(1)] Some]) (rule assms(2))
  then show ?thesis
    using wf_storeD [OF assms(1)] Some by (simp add: wf_store_def updateGame_def)
qed

lemma wf_store_addPlayerToGame:
  assumes "wf_store s" and "gameId < gameIdCounter s"
  shows "wf_store (snd (addPlayerToGame gameId userId isHost s))"
proof -
  let ?p = "\<lparr> pl_id = playerIdCounter s, pl_gameId = gameId, pl_userId = userId, pl_score = 0,
              pl_isHost = isHost \<rparr>"
  have app: "AList.update (playerIdCounter s) ?p (players s) = players s @ [(playerIdCounter s, ?p)]"
    by (rule wf_map_create(1) [OF wf_storeD(2) [OF assms(1)]]) simp
  have "wf_map pl_id (playerIdCounter s + 1) (AList.update (playerIdCounter s) ?p (players s))"
    by (rule wf_map_create(2) [OF wf_storeD(2) [OF assms(1)]]) simp
  moreover have "list_all (\<lambda>(k, p). pl_gameId p < gameIdCounter s)
      (AList.update (playerIdCounter s) ?p (players s))"
    unfolding app using wf_storeD(5) [OF assms(1)] assms(2) by simp
  ultimately show ?thesis
    using wf_storeD [OF assms(1)] by (simp add: wf_store_def addPlayerToGame_def Let_def)
qed

lemma wf_store_updatePlayerScore:
  assumes "wf_store s"
  shows "wf_store (snd (updatePlayerScore playerId scoreIncrement s))"
proof (cases "map_of (players s) playerId")
  case None
  with assms show ?thesis by (simp add: updatePlayerScore_def)
next
  case (Some p)
  let ?p = "p\<lparr> pl_score := pl_score p + scoreIncrement \<rparr>"
  have "wf_map pl_id (playerIdCounter s) (AList.update playerId ?p (players s))"
    by (rule wf_map_modify [OF wf_storeD(2) [OF assms] Some]) simp
  moreover have "list_all (\<lambda>(k, p). pl_gameId p < gameIdCounter s)
      (AList.update playerId ?p (players s))"
    by (rule list_all_modify [OF wf_storeD(5) [OF assms] Some]) simp
  ultimately show ?thesis
    using wf_storeD [OF assms] Some by (simp add: wf_store_def updatePlayerScore_def Let_def)
qed

lemma wf_store_createRound:
  assumes "wf_store s"
  shows "wf_store (snd (createRound gameId roundNumber judgeId ws timeLimit s))"
proof -
  let ?r = "\<lparr> r_id = roundIdCounter s, r_gameId = gameId, r_roundNumber = roundNumber,
              r_judgeId = judgeId, r_words = ws, r_status = Setup, r_timeLimit = timeLimit,
              r_endTime = None, r_winnerId = None \<rparr>"
  have "wf_map r_id (roundIdCounter s + 1) (AList.update (roundIdCounter s) ?r (rounds s))"
    by (rule wf_map_create(2) [OF wf_storeD(3) [OF assms]]) simp
  moreover have "list_all (\<lambda>(k, p). po_roundId p < roundIdCounter s + 1) (poems s)"
    by (rule list_all_less_mono [OF wf_storeD(6) [OF assms]]) simp
  ultimately show ?thesis
    using wf_storeD [OF assms] by (simp add: wf_store_def createRound_def Let_def)
qed

lemma wf_store_modifyRound:
  assumes "wf_store s" and "map_of (rounds s) i = Some r" and "r_id r' = r_id r"
  shows "wf_store (s\<lparr> rounds := AList.update i r' (rounds s) \<rparr>)"
proof -
  have "wf_map r_id (roundIdCounter s) (AList.update i r' (rounds s))"
    by (rule wf_map_modify [OF wf_storeD(3) [OF assms(1)] assms(2,3)])
  then show ?thesis
    using wf_storeD [OF assms(1)] by (simp add: wf_store_def)
qed

lemma wf_store_updateRoundStatus:
  assumes "wf_store s"
  shows "wf_store (updateRoundStatus i status s)"
proof (cases "map_of (rounds s) i")
  case None
  with assms show ?thesis by (simp add: updateRoundStatus_def)
next
  case (Some r)
  then show ?thesis
    using wf_store_modifyRound [OF assms Some, of "r\<lparr> r_status := status \<rparr>"]
    by (simp add: updateRoundStatus_def)
qed

lemma wf_store_setRoundWinner:
  assumes "wf_store s"
  shows "wf_store (setRoundWinner i winnerId s)"
proof (cases "map_of (rounds s) i")
  case None
  with assms show ?thesis by (simp add: setRoundWinner_def)
next
  case (Some r)
  then show ?thesis
    using wf_store_modifyRound [OF assms Some,
        of "r\<lparr> r_winnerId := Some winnerId, r_status := Completed \<rparr>"]
    by (simp add: setRoundWinner_def)
qed

lemma wf_store_updateRoundEndTime:
  assumes "wf_store s"
  shows "wf_store (updateRoundEndTime i endTime s)"
proof (cases "map_of (rounds s) i")
  case None
  with assms show ?thesis by (simp add: updateRoundEndTime_def)
next
  case (Some r)
  then show ?thesis
    using wf_store_modifyRound [OF assms Some, of "r\<lparr> r_endTime := Some endTime \<rparr>"]
    by (simp add: updateRoundEndTime_def)
qed

lemma wf_store_createPoem:
  assumes "wf_store s" and "roundId < roundIdCounter s"
  shows "wf_store (snd (createPoem roundId playerId content s))"
proof -
  let ?p = "\<lparr> po_id = poemIdCounter s, po_roundId = roundId, po_playerId = playerId,
              po_content = content, po_submitted = False, po_submittedAt = None \<rparr>"
  have app: "AList.update (poemIdCounter s) ?p (poems s) = poems s @ [(poemIdCounter s, ?p)]"
    by (rule wf_map_create(1) [OF wf_storeD(4) [OF assms(1)]]) simp
  have "wf_map po_id (poemIdCounter s + 1) (AList.update (poemIdCounter s) ?p (poems s))"
    by (rule wf_map_create(2) [OF wf_storeD(4) [OF assms(1)]]) simp
  moreover have "list_all (\<lambda>(k, p). po_roundId p < roundIdCounter s)
      (AList.update (poemIdCounter s) ?p (poems s))"
    unfolding app using wf_storeD(6) [OF assms(1)] assms(2) by simp
  ultimately show ?thesis
    using wf_storeD [OF assms(1)] by (simp add: wf_store_def createPoem_def Let_def)
qed

lemma wf_store_modifyPoem:
  assumes "wf_store s" and "map_of (poems s) i = Some p"
    and "po_id p' = po_id p" and "po_roundId p' = po_roundId p"
  shows "wf_store (s\<lparr> poems := AList.update i p' (poems s) \<rparr>)"
proof -
  have "wf_map po_id (poemIdCounter s) (AList.update i p' (poems s))"
    by (rule wf_map_modify [OF wf_storeD(4) [OF assms(1)] assms(2,3)])
  moreover have "list_all (\<lambda>(k, p). po_roundId p < roundIdCounter s)
      (AList.update i p' (poems s))"
    by (rule list_all_modify [OF wf_storeD(6) [OF assms(1)] assms(2)]) (simp add: assms(4))
  ultimately show ?thesis
    using wf_storeD [OF assms(1)] by (simp add: wf_store_def)
qed

lemma wf_store_updatePoem:
  assumes "wf_store s"
  shows "wf_store (snd (updatePoem i content s))"
proof (cases "map_of (poems s) i")
  case None
  with assms show ?thesis by (simp add: updatePoem_def)
next
  case (Some p)
  then show ?thesis
    using wf_store_modifyPoem [OF assms Some, of "p\<lparr> po_content := content \<rparr>"]
    by (simp add: updatePoem_def Let_def)
qed

lemma wf_store_submitPoem:
  assumes "wf_store s"
  shows "wf_store (snd (submitPoem now i s))"
proof (cases "map_of (poems s) i")
  case None
  with assms show ?thesis by (simp add: submitPoem_def)
next
  case (Some p)
  then show ?thesis
    using wf_store_modifyPoem [OF assms Some,
        of "p\<lparr> po_submitted := True, po_submittedAt := Some now \<rparr>"]
    by (simp add: submitPoem_def Let_def)
qed

lemma addPlayerToGame_effect:
  assumes "wf_store s"
  shows "snd (addPlayerToGame gameId userId isHost s) =
           s\<lparr> playerIdCounter := playerIdCounter s + 1,
              players := players s @
                [(playerIdCounter s,
                  \<lparr> pl_id = playerIdCounter s, pl_gameId = gameId, pl_userId = userId,
                    pl_score = 0, pl_isHost = isHost \<rparr>)] \<rparr>"
proof -
  let ?p = "\<lparr> pl_id = playerIdCounter s, pl_gameId = gameId, pl_userId = userId, pl_score = 0,
              pl_isHost = isHost \<rparr>"
  have "AList.update (playerIdCounter s) ?p (players s) = players s @ [(playerIdCounter s, ?p)]"
    by (rule wf_map_create(1) [OF wf_storeD(2) [OF assms]]) simp
  then show ?thesis
    by (simp add: addPlayerToGame_def Let_def)
qed

lemma createPoem_effect:
  assumes "wf_store s"
  shows "snd (createPoem roundId playerId content s) =
           s\<lparr> poemIdCounter := poemIdCounter s + 1,
              poems := poems s @
                [(poemIdCounter s,
                  \<lparr> po_id = poemIdCounter s, po_roundId = roundId, po_playerId = playerId,
                    po_content = content, po_submitted = False, po_submittedAt = None \<rparr>)] \<rparr>"
proof -
  let ?p = "\<lparr> po_id = poemIdCounter s, po_roundId = roundId, po_playerId = playerId,
              po_content = content, po_submitted = False, po_submittedAt = None \<rparr>"
  have "AList.update (poemIdCounter s) ?p (poems s) = poems s @ [(poemIdCounter s, ?p)]"
    by (rule wf_map_create(1) [OF wf_storeD(4) [OF assms]]) simp
  then show ?thesis
    by (simp add: createPoem_def Let_def)
qed

lemma addPlayers_effect:
  assumes "wf_store s" and "gameId < gameIdCounter s"
  shows "wf_store (addPlayers gameId i playerIds s) \<and>
         same_but_players s (addPlayers gameId i playerIds s) \<and>
         (\<exists>new. players (addPlayers gameId i playerIds s) = players s @ new \<and>
                map (pl_userId \<circ> snd) new = playerIds \<and>
                map (pl_gameId \<circ> snd) new = map (\<lambda>_. gameId) playerIds)"
  using assms
proof (induction playerIds arbitrary: s i)
  case Nil
  then show ?case by (simp add: same_but_players_def)
next
  case (Cons playerId rest)
  let ?s1 = "snd (addPlayerToGame gameId playerId (i = 0) s)"
  have wf1: "wf_store ?s1"
    using Cons.prems by (rule wf_store_addPlayerToGame)
  have eq1: "?s1 = s\<lparr> playerIdCounter := playerIdCounter s + 1,
              players := players s @
                [(playerIdCounter s,
                  \<lparr> pl_id = playerIdCounter s, pl_gameId = gameId, pl_userId = playerId,
                    pl_score = 0, pl_isHost = (i = 0) \<rparr>)] \<rparr>"
    using Cons.prems(1) by (rule addPlayerToGame_effect)
  have lt1: "gameId < gameIdCounter ?s1"
    using Cons.prems(2) by (simp add: eq1)
  from Cons.IH [OF wf1 lt1, of "Suc i"]
  obtain new where
    wf: "wf_store (addPlayers gameId (Suc i) rest ?s1)" and
    same: "same_but_players ?s1 (addPlayers gameId (Suc i) rest ?s1)" and
    new: "players (addPlayers gameId (Suc i) rest ?s1) = players ?s1 @ new"
      "map (pl_userId \<circ> snd) new = rest"
      "map (pl_gameId \<circ> snd) new = map (\<lambda>_. gameId) rest"
    by blast
  have same': "same_but_players s (addPlayers gameId (Suc i) rest ?s1)"
    using same by (simp add: same_but_players_def eq1)
  let ?e = "(playerIdCounter s,
             \<lparr> pl_id = playerIdCounter s, pl_gameId = gameId, pl_userId = playerId,
               pl_score = 0, pl_isHost = (i = 0) \<rparr>)"
  have A: "players (addPlayers gameId (Suc i) rest ?s1) = players s @ (?e # new)"
    using new(1) by (simp add: eq1)
  have B: "map (pl_userId \<circ> snd) (?e # new) = playerId # rest"
    using new(2) by simp
  have C: "map (pl_gameId \<circ> snd) (?e # new) = map (\<lambda>_. gameId) (playerId # rest)"
    using new(3) by simp
  have step: "addPlayers gameId i (playerId # rest) s = addPlayers gameId (Suc i) rest ?s1"
    by simp
  show ?case
    unfolding step
  proof (intro conjI)
    show "wf_store (addPlayers gameId (Suc i) rest ?s1)"
      by (fact wf)
    show "same_but_players s (addPlayers gameId (Suc i) rest ?s1)"
      by (fact same')
    show "\<exists>new. players (addPlayers gameId (Suc i) rest ?s1) = players s @ new \<and>
                map (pl_userId \<circ> snd) new = playerId # rest \<and>
                map (pl_gameId \<circ> snd) new = map (\<lambda>_. gameId) (playerId # rest)"
    proof (rule exI [of _ "?e # new"], intro conjI)
      show "players (addPlayers gameId (Suc i) rest ?s1) = players s @ (?e # new)"
        by (fact A)
      show "map (pl_userId \<circ> snd) (?e # new) = playerId # rest"
        by (fact B)
      show "map (pl_gameId \<circ> snd) (?e # new) = map (\<lambda>_. gameId) (playerId # rest)"
        by (fact C)
    qed
  qed
qed


lemma createPoems_effect:
  fixes P :: "'a \<Rightarrow> bool" and f :: "'a \<Rightarrow> int" and roundId :: int
  defines "loop \<equiv> fold (\<lambda>x s'. if P x then snd (createPoem roundId (f x) [] s') else s')"
  assumes "wf_store s" and "roundId < roundIdCounter s"
  shows "wf_store (loop xs s) \<and>
         same_but_poems s (loop xs s) \<and>
         (\<exists>new. poems (loop xs s) = poems s @ new \<and>
                map (po_playerId \<circ> snd) new = map f (filter P xs) \<and>
                map (po_roundId \<circ> snd) new = map (\<lambda>_. roundId) (filter P xs))"
  using assms(2,3)
proof (induction xs arbitrary: s)
  case Nil
  then show ?case by (simp add: loop_def same_but_poems_def)
next
  case (Cons x rest)
  show ?case
  proof (cases "P x")
    case False
    then have step: "loop (x # rest) s = loop rest s"
      by (simp add: loop_def)
    from Cons.IH [OF Cons.prems] False show ?thesis
      unfolding step by simp
  next
    case True
    let ?s1 = "snd (createPoem roundId (f x) [] s)"
    let ?e = "(poemIdCounter s,
               \<lparr> po_id = poemIdCounter s, po_roundId = roundId, po_playerId = f x,
                 po_content = [], po_submitted = False, po_submittedAt = None \<rparr>)"
    have step: "loop (x # rest) s = loop rest ?s1"
      using True by (simp add: loop_def)
    have wf1: "wf_store ?s1"
      using Cons.prems by (rule wf_store_createPoem)
    have eq1: "?s1 = s\<lparr> poemIdCounter := poemIdCounter s + 1, poems := poems s @ [?e] \<rparr>"
      using Cons.prems(1) by (rule createPoem_effect)
    have lt1: "roundId < roundIdCounter ?s1"
      using Cons.prems(2) by (simp add: eq1)
    note ih = Cons.IH [OF wf1 lt1]
    from ih have wf: "wf_store (loop rest ?s1)"
      by (rule conjunct1)
    from ih have same: "same_but_poems ?s1 (loop rest ?s1)"
      by (rule conjunct1 [OF conjunct2])
    from ih obtain new where
      new: "poems (loop rest ?s1) = poems ?s1 @ new"
        "map (po_playerId \<circ> snd) new = map f (filter P rest)"
        "map (po_roundId \<circ> snd) new = map (\<lambda>_. roundId) (filter P rest)"
      by (elim conjE exE)
    have same': "same_but_poems s (loop rest ?s1)"
      using same by (simp add: same_but_poems_def eq1)
    have A: "poems (loop rest ?s1) = poems s @ (?e # new)"
      using new(1) by (simp add: eq1)
    have B: "map (po_playerId \<circ> snd) (?e # new) = map f (filter P (x # rest))"
      using new(2) True by simp
    have C: "map (po_roundId \<circ> snd) (?e # new) = map (\<lambda>_. roundId) (filter P (x # rest))"
      using new(3) True by simp
    show ?thesis
      unfolding step
    proof (intro conjI)
      show "wf_store (loop rest ?s1)"
        by (fact wf)
      show "same_but_poems s (loop rest ?s1)"
        by (fact same')
      show "\<exists>new. poems (loop rest ?s1) = poems s @ new \<and>
                  map (po_playerId \<circ> snd) new = map f (filter P (x # rest)) \<and>
                  map (po_roundId \<circ> snd) new = map (\<lambda>_. roundId) (filter P (x # rest))"
      proof (rule exI [of _ "?e # new"], intro conjI)
        show "poems (loop rest ?s1) = poems s @ (?e # new)"
          by (fact A)
        show "map (po_playerId \<circ> snd) (?e # new) = map f (filter P (x # rest))"
          by (fact B)
        show "map (po_roundId \<circ> snd) (?e # new) = map (\<lambda>_. roundId) (filter P (x # rest))"
          by (fact C)
      qed
    qed
  qed
qed


lemma filter_below_counter:
  assumes "list_all (\<lambda>(k, v). f v < c) al"
  shows "filter (\<lambda>v. f v = (c :: int)) (map snd al) = []"
proof -
  have "f w < c" if "(j, w) \<in> set al" for j w
    using assms that unfolding list_all_iff by blast
  then have "f w \<noteq> c" if "w \<in> snd ` set al" for w
    using that by fastforce
  then show ?thesis
    by (simp add: filter_empty_conv)
qed

lemma filter_all_same:
  assumes "map (f \<circ> snd) new = map (\<lambda>_. c) xs"
  shows "filter (\<lambda>v. f v = c) (map snd new) = map snd new"
proof -
  have "set (map (f \<circ> snd) new) \<subseteq> {c}"
    unfolding assms by auto
  then have "\<forall>v \<in> set (map snd new). f v = c"
    by auto
  then show ?thesis
    by (rule filter_True)
qed

lemma postGames_effect:
  assumes "wf_store s" and "createGameRequestSchema name totalRounds playerIds"
  shows "wf_store (snd (postGames now random name totalRounds playerIds s))"
    and "map pl_userId (getPlayersByGame (snd (postGames now random name totalRounds playerIds s))
           (gameIdCounter s)) = playerIds"
    and "map po_playerId (getPoemsByRound (snd (postGames now random name totalRounds playerIds s))
           (roundIdCounter s)) = filter (\<lambda>playerId. playerId \<noteq> hd playerIds) playerIds"
    and "map_option r_judgeId (getRound (snd (postGames now random name totalRounds playerIds s))
           (roundIdCounter s)) = Some (hd playerIds)"
proof -
  define hostId where "hostId = hd playerIds"
  define s1 where "s1 = snd (createGame now name hostId totalRounds s)"
  define s2 where "s2 = addPlayers (gameIdCounter s) 0 playerIds s1"
  define s3 where
    "s3 = snd (createRound (gameIdCounter s) 1 hostId (generateRandomWords random 5) 300 s2)"
  define s4 where "s4 = createGamePoems (roundIdCounter s2) hostId playerIds s3"
  have wf1: "wf_store s1"
    unfolding s1_def using assms(1) by (rule wf_store_createGame)
  have s1: "players s1 = players s" "poems s1 = poems s" "rounds s1 = rounds s"
    "gameIdCounter s1 = gameIdCounter s + 1" "roundIdCounter s1 = roundIdCounter s"
    by (simp_all add: s1_def createGame_def Let_def)
  have lt: "gameIdCounter s < gameIdCounter s1"
    by (simp add: s1)
  note add = addPlayers_effect [OF wf1 lt, of 0 playerIds, folded s2_def]
  from add have wf2: "wf_store s2"
    by (rule conjunct1)
  from add have same2: "same_but_players s1 s2"
    by (rule conjunct1 [OF conjunct2])
  from add obtain newPlayers where
    np: "players s2 = players s1 @ newPlayers"
      "map (pl_userId \<circ> snd) newPlayers = playerIds"
      "map (pl_gameId \<circ> snd) newPlayers = map (\<lambda>_. gameIdCounter s) playerIds"
    by (elim conjE exE)
  have s2: "poems s2 = poems s" "roundIdCounter s2 = roundIdCounter s"
    using same2 by (simp_all add: same_but_players_def s1)
  have wf3: "wf_store s3"
    unfolding s3_def using wf2 by (rule wf_store_createRound)
  have s3: "players s3 = players s2" "poems s3 = poems s"
    "roundIdCounter s3 = roundIdCounter s + 1"
    "map_option r_judgeId (map_of (rounds s3) (roundIdCounter s)) = Some hostId"
    by (simp_all add: s3_def createRound_def Let_def s2 update_conv')
  have lt3: "roundIdCounter s2 < roundIdCounter s3"
    by (simp add: s3 s2)
  note cp = createPoems_effect [OF wf3 lt3, of "\<lambda>playerId. playerId \<noteq> hostId" "\<lambda>playerId. playerId"
      playerIds, folded createGamePoems_def, folded s4_def]
  from cp have wf4: "wf_store s4"
    by (rule conjunct1)
  from cp have same4: "same_but_poems s3 s4"
    by (rule conjunct1 [OF conjunct2])
  from cp obtain newPoems where
    npo: "poems s4 = poems s3 @ newPoems"
      "map (po_playerId \<circ> snd) newPoems = map (\<lambda>playerId. playerId) (filter (\<lambda>playerId. playerId \<noteq> hostId) playerIds)"
      "map (po_roundId \<circ> snd) newPoems = map (\<lambda>_. roundIdCounter s2) (filter (\<lambda>playerId. playerId \<noteq> hostId) playerIds)"
    by (elim conjE exE)
  have s4: "players s4 = players s @ newPlayers" "rounds s4 = rounds s3"
    using same4 by (simp_all add: same_but_poems_def s3 np s1)
  have result: "snd (postGames now random name totalRounds playerIds s) = s4"
    using assms(2)
    by (simp add: postGames_def Let_def split_beta s4_def s3_def s2_def s1_def hostId_def
        createGame_def createRound_def)
  show "wf_store (snd (postGames now random name totalRounds playerIds s))"
    unfolding result by (fact wf4)
  have oldPlayers: "filter (\<lambda>p. pl_gameId p = gameIdCounter s) (map snd (players s)) = []"
    by (rule filter_below_counter [OF wf_storeD(5) [OF assms(1)]])
  have newPlayers: "filter (\<lambda>p. pl_gameId p = gameIdCounter s) (map snd newPlayers) = map snd newPlayers"
    by (rule filter_all_same [OF np(3)])
  show "map pl_userId (getPlayersByGame (snd (postGames now random name totalRounds playerIds s))
           (gameIdCounter s)) = playerIds"
    unfolding result using np(2) by (simp add: getPlayersByGame_def s4 oldPlayers newPlayers)
  have oldPoems: "filter (\<lambda>p. po_roundId p = roundIdCounter s) (map snd (poems s)) = []"
    by (rule filter_below_counter [OF wf_storeD(6) [OF assms(1)]])
  have newPoems: "filter (\<lambda>p. po_roundId p = roundIdCounter s) (map snd newPoems) = map snd newPoems"
    by (rule filter_all_same [OF npo(3) [unfolded s2(2)]])
  show "map po_playerId (getPoemsByRound (snd (postGames now random name totalRounds playerIds s))
           (roundIdCounter s)) = filter (\<lambda>playerId. playerId \<noteq> hd playerIds) playerIds"
    unfolding result using npo(2)
    by (simp add: getPoemsByRound_def npo(1) s3 oldPoems newPoems hostId_def)
  show "map_option r_judgeId (getRound (snd (postGames now random name totalRounds playerIds s))
           (roundIdCounter s)) = Some (hd playerIds)"
    unfolding result using s3(4) by (simp add: getRound_def s4 hostId_def)
qed


lemma postNextRound_effect:
  assumes "wf_store s" and "getGame s gameId = Some g"
    and "g_currentRound g < g_totalRounds g"
    and "nextJudge g (getPlayersByGame s gameId) = Inr (nextJudgeIndex, nextJudgeId)"
  shows "wf_store (snd (postNextRound random gameId s))"
    and "fst (postNextRound random gameId s) = Inr 200"
    and "map po_playerId (getPoemsByRound (snd (postNextRound random gameId s)) (roundIdCounter s)) =
           map pl_id (filter (\<lambda>player. pl_userId player \<noteq> nextJudgeId)
             (getPlayersByGame s gameId))"
    and "map_option r_judgeId (getRound (snd (postNextRound random gameId s)) (roundIdCounter s)) =
           Some nextJudgeId"
    and "getGame (snd (postNextRound random gameId s)) gameId =
           Some (g\<lparr> g_currentRound := g_currentRound g + 1,
                    g_currentJudgeIndex := nextJudgeIndex \<rparr>)"
    and "players (snd (postNextRound random gameId s)) = players s"
proof -
  define ps where "ps = getPlayersByGame s gameId"
  define s1 where
    "s1 = updateGame gameId
            (\<lambda>g'. g'\<lparr> g_currentRound := g_currentRound g + 1,
                      g_currentJudgeIndex := nextJudgeIndex \<rparr>) s"
  define s2 where
    "s2 = snd (createRound gameId (g_currentRound g + 1) nextJudgeId
                 (generateRandomWords random 5) 300 s1)"
  define s3 where "s3 = nextRoundPoems (roundIdCounter s1) nextJudgeId ps s2"
  have wf1: "wf_store s1"
    unfolding s1_def using assms(1) by (rule wf_store_updateGame) simp
  have s1: "players s1 = players s" "poems s1 = poems s" "roundIdCounter s1 = roundIdCounter s"
    "map_of (games s1) gameId =
       Some (g\<lparr> g_currentRound := g_currentRound g + 1, g_currentJudgeIndex := nextJudgeIndex \<rparr>)"
    using assms(2) by (simp_all add: s1_def updateGame_def getGame_def update_conv')
  have wf2: "wf_store s2"
    unfolding s2_def using wf1 by (rule wf_store_createRound)
  have s2: "players s2 = players s" "poems s2 = poems s" "games s2 = games s1"
    "roundIdCounter s2 = roundIdCounter s + 1"
    "map_option r_judgeId (map_of (rounds s2) (roundIdCounter s)) = Some nextJudgeId"
    by (simp_all add: s2_def createRound_def Let_def s1 update_conv')
  have lt2: "roundIdCounter s1 < roundIdCounter s2"
    by (simp add: s1 s2)
  note cp = createPoems_effect [OF wf2 lt2, of "\<lambda>player. pl_userId player \<noteq> nextJudgeId" pl_id ps,
      folded nextRoundPoems_def, folded s3_def]
  from cp have wf3: "wf_store s3"
    by (rule conjunct1)
  from cp have same3: "same_but_poems s2 s3"
    by (rule conjunct1 [OF conjunct2])
  from cp obtain newPoems where
    npo: "poems s3 = poems s2 @ newPoems"
      "map (po_playerId \<circ> snd) newPoems =
         map pl_id (filter (\<lambda>player. pl_userId player \<noteq> nextJudgeId) ps)"
      "map (po_roundId \<circ> snd) newPoems =
         map (\<lambda>_. roundIdCounter s1) (filter (\<lambda>player. pl_userId player \<noteq> nextJudgeId) ps)"
    by (elim conjE exE)
  have s3: "players s3 = players s" "rounds s3 = rounds s2" "games s3 = games s1"
    using same3 by (simp_all add: same_but_poems_def s2)
  have result: "postNextRound random gameId s = (Inr 200, s3)"
    using assms(2,3,4)
    by (simp add: postNextRound_def Let_def split_beta s3_def s2_def s1_def ps_def
        createRound_def updateGame_def getGame_def)
  show "wf_store (snd (postNextRound random gameId s))"
    unfolding result using wf3 by simp
  show "fst (postNextRound random gameId s) = Inr 200"
    unfolding result by simp
  have oldPoems: "filter (\<lambda>p. po_roundId p = roundIdCounter s) (map snd (poems s)) = []"
    by (rule filter_below_counter [OF wf_storeD(6) [OF assms(1)]])
  have newPoems: "filter (\<lambda>p. po_roundId p = roundIdCounter s) (map snd newPoems) = map snd newPoems"
    by (rule filter_all_same [OF npo(3) [unfolded s1(3)]])
  show "map po_playerId (getPoemsByRound (snd (postNextRound random gameId s)) (roundIdCounter s)) =
           map pl_id (filter (\<lambda>player. pl_userId player \<noteq> nextJudgeId)
             (getPlayersByGame s gameId))"
    unfolding result using npo(2)
    by (simp add: getPoemsByRound_def npo(1) s2 oldPoems newPoems ps_def)
  show "map_option r_judgeId (getRound (snd (postNextRound random gameId s)) (roundIdCounter s)) =
           Some nextJudgeId"
    unfolding result using s2(5) by (simp add: getRound_def s3)
  show "getGame (snd (postNextRound random gameId s)) gameId =
           Some (g\<lparr> g_currentRound := g_currentRound g + 1,
                    g_currentJudgeIndex := nextJudgeIndex \<rparr>)"
    unfolding result using s1(4) by (simp add: getGame_def s3)
  show "players (snd (postNextRound random gameId s)) = players s"
    unfolding result by (simp add: s3)
qed

lemma wf_store_postGames:
  assumes "wf_store s"
  shows "wf_store (snd (postGames now random name totalRounds playerIds s))"
proof (cases "createGameRequestSchema name totalRounds playerIds")
  case True
  with assms show ?thesis by (rule postGames_effect(1))
next
  case False
  with assms show ?thesis by (simp add: postGames_def)
qed

lemma wf_store_putRoundStatus:
  assumes "wf_store s"
  shows "wf_store (snd (putRoundStatus now roundId status s))"
  using assms
  by (simp add: putRoundStatus_def Let_def wf_store_updateRoundStatus wf_store_updateRoundEndTime
      split: option.splits)

lemma wf_store_putPoem:
  assumes "wf_store s"
  shows "wf_store (snd (putPoem poemId content s))"
proof -
  have "snd (putPoem poemId content s) = snd (updatePoem poemId content s)"
    by (simp add: putPoem_def split: prod.splits option.splits)
  then show ?thesis
    using wf_store_updatePoem [OF assms] by simp
qed

lemma wf_store_postPoemSubmit:
  assumes "wf_store s"
  shows "wf_store (snd (postPoemSubmit now poemId s))"
  using assms
  by (simp add: postPoemSubmit_def Let_def wf_store_submitPoem wf_store_updateRoundStatus
      split: option.splits)

lemma wf_store_postRoundWinner:
  assumes "wf_store s"
  shows "wf_store (snd (postRoundWinner roundId poemId s))"
  using assms
  by (simp add: postRoundWinner_def Let_def wf_store_setRoundWinner wf_store_updatePlayerScore
      split: option.splits)

lemma wf_store_postNextRound:
  assumes "wf_store s"
  shows "wf_store (snd (postNextRound random gameId s))"
proof (cases "getGame s gameId")
  case None
  with assms show ?thesis by (simp add: postNextRound_def)
next
  case (Some g)
  show ?thesis
  proof (cases "g_currentRound g \<ge> g_totalRounds g")
    case True
    have "wf_store (updateGame gameId (\<lambda>g. g\<lparr> g_status := GameCompleted \<rparr>) s)"
      using assms by (rule wf_store_updateGame) simp
    with Some True show ?thesis by (simp add: postNextRound_def)
  next
    case False
    show ?thesis
    proof (cases "nextJudge g (getPlayersByGame s gameId)")
      case (Inl err)
      with Some False assms show ?thesis by (simp add: postNextRound_def Let_def)
    next
      case (Inr res)
      obtain k j where res: "res = (k, j)" by (cases res)
      from False have "g_currentRound g < g_totalRounds g" by simp
      from postNextRound_effect(1) [OF assms Some this Inr [unfolded res]] show ?thesis .
    qed
  qed
qed

section \<open>The judge has no poem\<close>

text \<open>
  \<open>store_inv\<close> holds of the empty store and every handler that writes games, players,
  rounds or poems keeps it (\<open>POST /games\<close>, \<open>PUT /rounds/:id/status\<close>, \<open>PUT /poems/:id\<close>,
  \<open>POST /poems/:id/submit\<close>, \<open>POST /rounds/:id/winner\<close>, \<open>POST /games/:id/next-round\<close>;
  the other routes read, or write users only). No handler changes the number or the judge
  of a stored round or the user of a stored player, so a poem that is a non-judge poem of
  its round stays one.
\<close>

lemma judge_has_no_poemD:
  assumes "judge_has_no_poem s" and "(k, q) \<in> set (poems s)"
  shows "\<exists>r. map_of (rounds s) (po_roundId q) = Some r \<and> authorIsNotJudge s r (po_playerId q)"
proof -
  from assms(1) have "\<forall>e \<in> set (poems s). case e of (k, q) \<Rightarrow>
      (case map_of (rounds s) (po_roundId q) of None \<Rightarrow> False | Some r \<Rightarrow> nonJudgePoem s r q)"
    by (simp add: judge_has_no_poem_def list_all_iff)
  from this assms(2) have "case (k, q) of (k, q) \<Rightarrow>
      (case map_of (rounds s) (po_roundId q) of None \<Rightarrow> False | Some r \<Rightarrow> nonJudgePoem s r q)"
    by (rule bspec)
  then show ?thesis
    by (cases "map_of (rounds s) (po_roundId q)") (simp_all add: nonJudgePoem_def)
qed

lemma judge_has_no_poemI:
  assumes "\<And>k q. (k, q) \<in> set (poems s) \<Longrightarrow>
      \<exists>r. map_of (rounds s) (po_roundId q) = Some r \<and> authorIsNotJudge s r (po_playerId q)"
  shows "judge_has_no_poem s"
proof -
  have "case e of (k, q) \<Rightarrow>
      (case map_of (rounds s) (po_roundId q) of None \<Rightarrow> False | Some r \<Rightarrow> nonJudgePoem s r q)"
    if "e \<in> set (poems s)" for e
  proof -
    obtain k q where e: "e = (k, q)" by (cases e)
    from assms [of k q] that e obtain r where
      "map_of (rounds s) (po_roundId q) = Some r" and "authorIsNotJudge s r (po_playerId q)"
      by blast
    then show ?thesis
      by (simp add: e nonJudgePoem_def)
  qed
  then show ?thesis
    unfolding judge_has_no_poem_def list_all_iff by blast
qed

lemma authorIsNotJudge_kept:
  assumes "keeps_judges s s'" and "map_of (rounds s) i = Some r"
    and "authorIsNotJudge s r playerId"
  shows "\<exists>r'. map_of (rounds s') i = Some r' \<and> authorIsNotJudge s' r' playerId"
proof -
  from assms(1,2) obtain r' where r': "map_of (rounds s') i = Some r'"
    "r_roundNumber r' = r_roundNumber r" "r_judgeId r' = r_judgeId r"
    unfolding keeps_judges_def by blast
  have "authorIsNotJudge s' r' playerId"
  proof (cases "r_roundNumber r = 1")
    case True
    with assms(3) r' show ?thesis by (simp add: authorIsNotJudge_def)
  next
    case False
    with assms(3) obtain pl where pl: "map_of (players s) playerId = Some pl"
      "pl_userId pl \<noteq> r_judgeId r"
      by (cases "map_of (players s) playerId") (simp_all add: authorIsNotJudge_def)
    from assms(1) pl(1) obtain pl' where "map_of (players s') playerId = Some pl'"
      "pl_userId pl' = pl_userId pl"
      unfolding keeps_judges_def by blast
    with pl(2) False r' show ?thesis by (simp add: authorIsNotJudge_def)
  qed
  with r'(1) show ?thesis by blast
qed

lemma judge_has_no_poem_kept:
  assumes "judge_has_no_poem s" and "keeps_judges s s'"
    and "\<And>k q'. (k, q') \<in> set (poems s') \<Longrightarrow>
      (\<exists>j q. (j, q) \<in> set (poems s) \<and> po_roundId q' = po_roundId q \<and>
             po_playerId q' = po_playerId q) \<or>
      (\<exists>r'. map_of (rounds s') (po_roundId q') = Some r' \<and>
            authorIsNotJudge s' r' (po_playerId q'))"
  shows "judge_has_no_poem s'"
proof (rule judge_has_no_poemI)
  fix k q'
  assume "(k, q') \<in> set (poems s')"
  from assms(3) [OF this]
  show "\<exists>r'. map_of (rounds s') (po_roundId q') = Some r' \<and>
      authorIsNotJudge s' r' (po_playerId q')"
  proof
    assume "\<exists>j q. (j, q) \<in> set (poems s) \<and> po_roundId q' = po_roundId q \<and>
             po_playerId q' = po_playerId q"
    then obtain j q where old: "(j, q) \<in> set (poems s)" "po_roundId q' = po_roundId q"
      "po_playerId q' = po_playerId q"
      by blast
    from judge_has_no_poemD [OF assms(1) old(1)] obtain r where
      "map_of (rounds s) (po_roundId q) = Some r" "authorIsNotJudge s r (po_playerId q)"
      by blast
    from authorIsNotJudge_kept [OF assms(2) this] show ?thesis
      by (simp add: old)
  next
    assume "\<exists>r'. map_of (rounds s') (po_roundId q') = Some r' \<and>
            authorIsNotJudge s' r' (po_playerId q')"
    then show ?thesis .
  qed
qed


lemma keeps_judges_same:
  assumes "rounds s' = rounds s" and "players s' = players s"
  shows "keeps_judges s s'"
  unfolding keeps_judges_def assms by blast

lemma keeps_judges_round:
  assumes "map_of (rounds s) i = Some r" and "r_roundNumber r' = r_roundNumber r"
    and "r_judgeId r' = r_judgeId r" and "rounds s' = AList.update i r' (rounds s)"
    and "players s' = players s"
  shows "keeps_judges s s'"
proof -
  have "\<exists>x'. map_of (rounds s') j = Some x' \<and> r_roundNumber x' = r_roundNumber x \<and>
      r_judgeId x' = r_judgeId x" if "map_of (rounds s) j = Some x" for j x
  proof (cases "j = i")
    case True
    with that assms(1) have "x = r" by simp
    with True assms(2,3) show ?thesis
      by (simp add: assms(4) update_conv')
  next
    case False
    with that show ?thesis
      by (simp add: assms(4) update_conv')
  qed
  then show ?thesis
    unfolding keeps_judges_def assms(5) by blast
qed

lemma keeps_judges_player:
  assumes "map_of (players s) i = Some pl" and "pl_userId pl' = pl_userId pl"
    and "players s' = AList.update i pl' (players s)" and "rounds s' = rounds s"
  shows "keeps_judges s s'"
proof -
  have "\<exists>x'. map_of (players s') j = Some x' \<and> pl_userId x' = pl_userId x"
    if "map_of (players s) j = Some x" for j x
  proof (cases "j = i")
    case True
    with that assms(1) have "x = pl" by simp
    with True assms(2) show ?thesis
      by (simp add: assms(3) update_conv')
  next
    case False
    with that show ?thesis
      by (simp add: assms(3) update_conv')
  qed
  then show ?thesis
    unfolding keeps_judges_def assms(4) by blast
qed

lemma map_of_append_Some:
  assumes "map_of al j = Some x"
  shows "map_of (al @ new) j = Some x"
  using assms by (simp add: map_of_append map_add_Some_iff)

lemma keeps_judges_append:
  assumes "rounds s' = rounds s @ newRounds" and "players s' = players s @ newPlayers"
  shows "keeps_judges s s'"
proof -
  have "\<exists>r'. map_of (rounds s') i = Some r' \<and> r_roundNumber r' = r_roundNumber r \<and>
      r_judgeId r' = r_judgeId r" if "map_of (rounds s) i = Some r" for i r
    using map_of_append_Some [OF that, of newRounds] by (simp add: assms(1))
  moreover have "\<exists>pl'. map_of (players s') i = Some pl' \<and> pl_userId pl' = pl_userId pl"
    if "map_of (players s) i = Some pl" for i pl
    using map_of_append_Some [OF that, of newPlayers] by (simp add: assms(2))
  ultimately show ?thesis
    unfolding keeps_judges_def by blast
qed

lemma keeps_judges_trans:
  assumes "keeps_judges s s'" and "keeps_judges s' s''"
  shows "keeps_judges s s''"
proof -
  have rnd: "\<exists>r''. map_of (rounds s'') i = Some r'' \<and> r_roundNumber r'' = r_roundNumber r \<and>
      r_judgeId r'' = r_judgeId r" if "map_of (rounds s) i = Some r" for i r
  proof -
    from assms(1) that obtain r' where r': "map_of (rounds s') i = Some r'"
      "r_roundNumber r' = r_roundNumber r" "r_judgeId r' = r_judgeId r"
      unfolding keeps_judges_def by blast
    from assms(2) r'(1) obtain r'' where "map_of (rounds s'') i = Some r''"
      "r_roundNumber r'' = r_roundNumber r'" "r_judgeId r'' = r_judgeId r'"
      unfolding keeps_judges_def by blast
    with r'(2,3) show ?thesis by simp
  qed
  have pl: "\<exists>pl''. map_of (players s'') i = Some pl'' \<and> pl_userId pl'' = pl_userId pl"
    if "map_of (players s) i = Some pl" for i pl
  proof -
    from assms(1) that obtain pl' where pl': "map_of (players s') i = Some pl'"
      "pl_userId pl' = pl_userId pl"
      unfolding keeps_judges_def by blast
    from assms(2) pl'(1) obtain pl'' where "map_of (players s'') i = Some pl''"
      "pl_userId pl'' = pl_userId pl'"
      unfolding keeps_judges_def by blast
    with pl'(2) show ?thesis by simp
  qed
  from rnd pl show ?thesis
    unfolding keeps_judges_def by blast
qed

lemma rounds_started_same:
  assumes "rounds_started s" and "games s' = games s"
  shows "rounds_started s'"
  using assms by (simp add: rounds_started_def)

lemma store_inv_same_poems:
  assumes "store_inv s" and "wf_store s'" and "games s' = games s" and "keeps_judges s s'"
    and "poems s' = poems s"
  shows "store_inv s'"
proof -
  have "judge_has_no_poem s'"
  proof (rule judge_has_no_poem_kept [OF _ assms(4)])
    show "judge_has_no_poem s"
      using assms(1) by (simp add: store_inv_def)
  next
    fix k q'
    assume "(k, q') \<in> set (poems s')"
    then have "(k, q') \<in> set (poems s) \<and> po_roundId q' = po_roundId q' \<and>
        po_playerId q' = po_playerId q'"
      by (simp add: assms(5))
    then show "(\<exists>j q. (j, q) \<in> set (poems s) \<and> po_roundId q' = po_roundId q \<and>
             po_playerId q' = po_playerId q) \<or>
      (\<exists>r'. map_of (rounds s') (po_roundId q') = Some r' \<and>
            authorIsNotJudge s' r' (po_playerId q'))"
      by blast
  qed
  moreover have "rounds_started s'"
    using assms(1,3) by (simp add: store_inv_def rounds_started_def)
  ultimately show ?thesis
    using assms(2) by (simp add: store_inv_def)
qed

lemma store_inv_modifyRound:
  assumes "store_inv s" and "map_of (rounds s) i = Some r" and "r_id r' = r_id r"
    and "r_roundNumber r' = r_roundNumber r" and "r_judgeId r' = r_judgeId r"
  shows "store_inv (s\<lparr> rounds := AList.update i r' (rounds s) \<rparr>)"
proof (rule store_inv_same_poems [OF assms(1)])
  show "wf_store (s\<lparr> rounds := AList.update i r' (rounds s) \<rparr>)"
    using assms(1) by (intro wf_store_modifyRound [OF _ assms(2,3)]) (simp add: store_inv_def)
  show "keeps_judges s (s\<lparr> rounds := AList.update i r' (rounds s) \<rparr>)"
    by (rule keeps_judges_round [OF assms(2,4,5)]) simp_all
qed simp_all

lemma store_inv_modifyPoem:
  assumes "store_inv s" and "map_of (poems s) i = Some p" and "po_id p' = po_id p"
    and "po_roundId p' = po_roundId p" and "po_playerId p' = po_playerId p"
  shows "store_inv (s\<lparr> poems := AList.update i p' (poems s) \<rparr>)"
proof -
  let ?s' = "s\<lparr> poems := AList.update i p' (poems s) \<rparr>"
  have wf: "wf_store s"
    using assms(1) by (simp add: store_inv_def)
  have keeps: "keeps_judges s ?s'"
    by (rule keeps_judges_same) simp_all
  have "judge_has_no_poem ?s'"
  proof (rule judge_has_no_poem_kept [OF _ keeps])
    show "judge_has_no_poem s"
      using assms(1) by (simp add: store_inv_def)
  next
    fix k q'
    assume "(k, q') \<in> set (poems ?s')"
    then have "(k, q') = (i, p') \<or> (k, q') \<in> set (poems s)"
      using set_update_subset [of i p' "poems s"] by auto
    then have "\<exists>j q. (j, q) \<in> set (poems s) \<and> po_roundId q' = po_roundId q \<and>
             po_playerId q' = po_playerId q"
    proof
      assume "(k, q') = (i, p')"
      with map_of_SomeD [OF assms(2)] assms(4,5) show ?thesis by blast
    next
      assume "(k, q') \<in> set (poems s)"
      then show ?thesis by blast
    qed
    then show "(\<exists>j q. (j, q) \<in> set (poems s) \<and> po_roundId q' = po_roundId q \<and>
             po_playerId q' = po_playerId q) \<or>
      (\<exists>r'. map_of (rounds ?s') (po_roundId q') = Some r' \<and>
            authorIsNotJudge ?s' r' (po_playerId q'))"
      by (rule disjI1)
  qed
  moreover have "rounds_started ?s'"
    using assms(1) by (simp add: store_inv_def rounds_started_def)
  moreover have "wf_store ?s'"
    by (rule wf_store_modifyPoem [OF wf assms(2,3,4)])
  ultimately show ?thesis
    by (simp add: store_inv_def)
qed


lemma store_invD:
  assumes "store_inv s"
  shows "wf_store s" and "rounds_started s" and "judge_has_no_poem s"
  using assms by (simp_all add: store_inv_def)

lemma judge_has_no_poem_cong:
  assumes "rounds s' = rounds s" and "poems s' = poems s" and "players s' = players s"
  shows "judge_has_no_poem s' = judge_has_no_poem s"
proof -
  have nj: "nonJudgePoem s' = nonJudgePoem s"
    by (simp add: fun_eq_iff nonJudgePoem_def authorIsNotJudge_def assms(3))
  show ?thesis
    unfolding judge_has_no_poem_def assms(1,2) nj by (rule refl)
qed

lemma store_inv_MemStorage: "store_inv MemStorage"
  using wf_store_MemStorage
  by (simp add: store_inv_def rounds_started_def judge_has_no_poem_def MemStorage_def)

lemma store_inv_updateGame:
  assumes "store_inv s" and "\<And>g. g_id (updates g) = g_id g"
    and "\<And>g. 1 \<le> g_currentRound g \<Longrightarrow> 1 \<le> g_currentRound (updates g)"
  shows "store_inv (updateGame i updates s)"
proof (cases "map_of (games s) i")
  case None
  with assms(1) show ?thesis by (simp add: updateGame_def)
next
  case (Some g)
  have eq: "updateGame i updates s = s\<lparr> games := AList.update i (updates g) (games s) \<rparr>"
    using Some by (simp add: updateGame_def)
  have "wf_store (updateGame i updates s)"
    by (rule wf_store_updateGame [OF store_invD(1) [OF assms(1)] assms(2)])
  moreover have "list_all (\<lambda>(k, g). 1 \<le> g_currentRound g) (AList.update i (updates g) (games s))"
    by (rule list_all_modify [OF store_invD(2) [OF assms(1), unfolded rounds_started_def] Some])
      (rule assms(3))
  then have "rounds_started (updateGame i updates s)"
    by (simp add: eq rounds_started_def)
  moreover have "judge_has_no_poem (updateGame i updates s)"
    using store_invD(3) [OF assms(1)] judge_has_no_poem_cong [of "updateGame i updates s" s]
    by (simp add: eq)
  ultimately show ?thesis
    by (simp add: store_inv_def)
qed

lemma store_inv_updateRoundStatus:
  assumes "store_inv s"
  shows "store_inv (updateRoundStatus i status s)"
proof (cases "map_of (rounds s) i")
  case None
  with assms show ?thesis by (simp add: updateRoundStatus_def)
next
  case (Some r)
  then show ?thesis
    using store_inv_modifyRound [OF assms Some, of "r\<lparr> r_status := status \<rparr>"]
    by (simp add: updateRoundStatus_def)
qed

lemma store_inv_setRoundWinner:
  assumes "store_inv s"
  shows "store_inv (setRoundWinner i winnerId s)"
proof (cases "map_of (rounds s) i")
  case None
  with assms show ?thesis by (simp add: setRoundWinner_def)
next
  case (Some r)
  then show ?thesis
    using store_inv_modifyRound [OF assms Some,
        of "r\<lparr> r_winnerId := Some winnerId, r_status := Completed \<rparr>"]
    by (simp add: setRoundWinner_def)
qed

lemma store_inv_updateRoundEndTime:
  assumes "store_inv s"
  shows "store_inv (updateRoundEndTime i endTime s)"
proof (cases "map_of (rounds s) i")
  case None
  with assms show ?thesis by (simp add: updateRoundEndTime_def)
next
  case (Some r)
  then show ?thesis
    using store_inv_modifyRound [OF assms Some, of "r\<lparr> r_endTime := Some endTime \<rparr>"]
    by (simp add: updateRoundEndTime_def)
qed

lemma store_inv_updatePoem:
  assumes "store_inv s"
  shows "store_inv (snd (updatePoem i content s))"
proof (cases "map_of (poems s) i")
  case None
  with assms show ?thesis by (simp add: updatePoem_def)
next
  case (Some p)
  then show ?thesis
    using store_inv_modifyPoem [OF assms Some, of "p\<lparr> po_content := content \<rparr>"]
    by (simp add: updatePoem_def Let_def)
qed

lemma store_inv_submitPoem:
  assumes "store_inv s"
  shows "store_inv (snd (submitPoem now i s))"
proof (cases "map_of (poems s) i")
  case None
  with assms show ?thesis by (simp add: submitPoem_def)
next
  case (Some p)
  then show ?thesis
    using store_inv_modifyPoem [OF assms Some,
        of "p\<lparr> po_submitted := True, po_submittedAt := Some now \<rparr>"]
    by (simp add: submitPoem_def Let_def)
qed

lemma store_inv_updatePlayerScore:
  assumes "store_inv s"
  shows "store_inv (snd (updatePlayerScore playerId scoreIncrement s))"
proof (cases "map_of (players s) playerId")
  case None
  with assms show ?thesis by (simp add: updatePlayerScore_def)
next
  case (Some pl)
  let ?pl = "pl\<lparr> pl_score := pl_score pl + scoreIncrement \<rparr>"
  have eq: "snd (updatePlayerScore playerId scoreIncrement s) =
      s\<lparr> players := AList.update playerId ?pl (players s) \<rparr>"
    using Some by (simp add: updatePlayerScore_def Let_def)
  show ?thesis
  proof (rule store_inv_same_poems [OF assms])
    show "wf_store (snd (updatePlayerScore playerId scoreIncrement s))"
      by (rule wf_store_updatePlayerScore [OF store_invD(1) [OF assms]])
    show "keeps_judges s (snd (updatePlayerScore playerId scoreIncrement s))"
      by (rule keeps_judges_player [OF Some, of ?pl]) (simp_all add: eq)
  qed (simp_all add: eq)
qed

lemma store_inv_putRoundStatus:
  assumes "store_inv s"
  shows "store_inv (snd (putRoundStatus now roundId status s))"
  using assms
  by (simp add: putRoundStatus_def Let_def store_inv_updateRoundStatus
      store_inv_updateRoundEndTime split: option.splits)

lemma store_inv_putPoem:
  assumes "store_inv s"
  shows "store_inv (snd (putPoem poemId content s))"
proof -
  have "snd (putPoem poemId content s) = snd (updatePoem poemId content s)"
    by (simp add: putPoem_def split: prod.splits option.splits)
  then show ?thesis
    using store_inv_updatePoem [OF assms] by simp
qed

lemma store_inv_postPoemSubmit:
  assumes "store_inv s"
  shows "store_inv (snd (postPoemSubmit now poemId s))"
  using assms
  by (simp add: postPoemSubmit_def Let_def store_inv_submitPoem store_inv_updateRoundStatus
      split: option.splits)

lemma store_inv_postRoundWinner:
  assumes "store_inv s"
  shows "store_inv (snd (postRoundWinner roundId poemId s))"
  using assms
  by (simp add: postRoundWinner_def Let_def store_inv_setRoundWinner
      store_inv_updatePlayerScore split: option.splits)


lemma new_poems_ids:
  assumes "map (po_playerId \<circ> snd) newPoems = map f (filter P xs)"
    and "map (po_roundId \<circ> snd) newPoems = map (\<lambda>_. roundId) (filter P xs)"
    and "e \<in> set newPoems"
  shows "po_roundId (snd e) = roundId" and "\<exists>x \<in> set xs. P x \<and> po_playerId (snd e) = f x"
proof -
  from assms(3) have "po_roundId (snd e) \<in> set (map (po_roundId \<circ> snd) newPoems)"
    by (simp add: image_iff) blast
  then show "po_roundId (snd e) = roundId"
    unfolding assms(2) by auto
  from assms(3) have "po_playerId (snd e) \<in> set (map (po_playerId \<circ> snd) newPoems)"
    by (simp add: image_iff) blast
  then show "\<exists>x \<in> set xs. P x \<and> po_playerId (snd e) = f x"
    unfolding assms(1) by auto
qed

lemma postGames_shape:
  assumes "wf_store s" and "createGameRequestSchema name totalRounds playerIds"
  shows "\<exists>g newPlayers r newPoems.
           games (snd (postGames now random name totalRounds playerIds s)) =
             games s @ [(gameIdCounter s, g)] \<and> g_currentRound g = 1 \<and>
           players (snd (postGames now random name totalRounds playerIds s)) =
             players s @ newPlayers \<and>
           rounds (snd (postGames now random name totalRounds playerIds s)) =
             rounds s @ [(roundIdCounter s, r)] \<and>
           r_roundNumber r = 1 \<and> r_judgeId r = hd playerIds \<and>
           poems (snd (postGames now random name totalRounds playerIds s)) =
             poems s @ newPoems \<and>
           (\<forall>e \<in> set newPoems. po_roundId (snd e) = roundIdCounter s \<and>
                                po_playerId (snd e) \<noteq> hd playerIds)"
proof -
  define hostId where "hostId = hd playerIds"
  define g where
    "g = \<lparr> g_id = gameIdCounter s, g_name = name, g_createdBy = hostId, g_currentRound = 1,
           g_totalRounds = totalRounds, g_currentJudgeIndex = 0, g_status = Waiting,
           g_createdAt = now \<rparr>"
  define r where
    "r = \<lparr> r_id = roundIdCounter s, r_gameId = gameIdCounter s, r_roundNumber = 1,
           r_judgeId = hostId, r_words = generateRandomWords random 5, r_status = Setup,
           r_timeLimit = 300, r_endTime = None, r_winnerId = None \<rparr>"
  define s1 where "s1 = snd (createGame now name hostId totalRounds s)"
  define s2 where "s2 = addPlayers (gameIdCounter s) 0 playerIds s1"
  define s3 where
    "s3 = snd (createRound (gameIdCounter s) 1 hostId (generateRandomWords random 5) 300 s2)"
  define s4 where "s4 = createGamePoems (roundIdCounter s2) hostId playerIds s3"
  have wf1: "wf_store s1"
    unfolding s1_def using assms(1) by (rule wf_store_createGame)
  have games1: "games s1 = games s @ [(gameIdCounter s, g)]"
    using wf_map_create(1) [OF wf_storeD(1) [OF assms(1)], of g]
    by (simp add: s1_def createGame_def Let_def g_def)
  have s1: "players s1 = players s" "poems s1 = poems s" "rounds s1 = rounds s"
    "gameIdCounter s1 = gameIdCounter s + 1" "roundIdCounter s1 = roundIdCounter s"
    by (simp_all add: s1_def createGame_def Let_def)
  have lt: "gameIdCounter s < gameIdCounter s1"
    by (simp add: s1)
  note add = addPlayers_effect [OF wf1 lt, of 0 playerIds, folded s2_def]
  from add have wf2: "wf_store s2"
    by (rule conjunct1)
  from add have same2: "same_but_players s1 s2"
    by (rule conjunct1 [OF conjunct2])
  from add obtain newPlayers where np: "players s2 = players s1 @ newPlayers"
    by (elim conjE exE)
  have s2: "poems s2 = poems s" "roundIdCounter s2 = roundIdCounter s" "rounds s2 = rounds s"
    "games s2 = games s1"
    using same2 by (simp_all add: same_but_players_def s1)
  have wf3: "wf_store s3"
    unfolding s3_def using wf2 by (rule wf_store_createRound)
  have rounds3: "rounds s3 = rounds s @ [(roundIdCounter s, r)]"
    using wf_map_create(1) [OF wf_storeD(3) [OF assms(1)], of r]
    by (simp add: s3_def createRound_def Let_def s2 r_def)
  have s3: "players s3 = players s2" "poems s3 = poems s" "games s3 = games s1"
    "roundIdCounter s3 = roundIdCounter s + 1"
    by (simp_all add: s3_def createRound_def Let_def s2)
  have lt3: "roundIdCounter s2 < roundIdCounter s3"
    by (simp add: s3 s2)
  note cp = createPoems_effect [OF wf3 lt3, of "\<lambda>playerId. playerId \<noteq> hostId" "\<lambda>playerId. playerId"
      playerIds, folded createGamePoems_def, folded s4_def]
  from cp have same4: "same_but_poems s3 s4"
    by (rule conjunct1 [OF conjunct2])
  from cp obtain newPoems where
    npo: "poems s4 = poems s3 @ newPoems"
      "map (po_playerId \<circ> snd) newPoems =
         map (\<lambda>playerId. playerId) (filter (\<lambda>playerId. playerId \<noteq> hostId) playerIds)"
      "map (po_roundId \<circ> snd) newPoems =
         map (\<lambda>_. roundIdCounter s2) (filter (\<lambda>playerId. playerId \<noteq> hostId) playerIds)"
    by (elim conjE exE)
  have s4: "games s4 = games s @ [(gameIdCounter s, g)]" "players s4 = players s @ newPlayers"
    "rounds s4 = rounds s @ [(roundIdCounter s, r)]" "poems s4 = poems s @ newPoems"
    using same4 by (simp_all add: same_but_poems_def s3 np s1 games1 rounds3 npo(1))
  have new: "po_roundId (snd e) = roundIdCounter s \<and> po_playerId (snd e) \<noteq> hostId"
    if "e \<in> set newPoems" for e
    using new_poems_ids [OF npo(2,3) that] by (auto simp: s2)
  have result: "snd (postGames now random name totalRounds playerIds s) = s4"
    using assms(2)
    by (simp add: postGames_def Let_def split_beta s4_def s3_def s2_def s1_def hostId_def
        createGame_def createRound_def)
  have "games s4 = games s @ [(gameIdCounter s, g)] \<and> g_currentRound g = 1 \<and>
      players s4 = players s @ newPlayers \<and>
      rounds s4 = rounds s @ [(roundIdCounter s, r)] \<and>
      r_roundNumber r = 1 \<and> r_judgeId r = hd playerIds \<and>
      poems s4 = poems s @ newPoems \<and>
      (\<forall>e \<in> set newPoems. po_roundId (snd e) = roundIdCounter s \<and>
                           po_playerId (snd e) \<noteq> hd playerIds)"
    using s4 new by (simp add: g_def r_def hostId_def)
  then show ?thesis
    unfolding result by (intro exI)
qed


lemma map_of_append_fresh:
  assumes "k \<notin> fst ` set al"
  shows "map_of (al @ [(k, v)]) k = Some v"
proof -
  have "map_of al k = None"
    using assms by (simp add: map_of_eq_None_iff)
  then show ?thesis
    by (simp add: map_of_append map_add_def)
qed

lemma store_inv_postGames:
  assumes "store_inv s"
  shows "store_inv (snd (postGames now random name totalRounds playerIds s))"
proof (cases "createGameRequestSchema name totalRounds playerIds")
  case False
  with assms show ?thesis by (simp add: postGames_def)
next
  case True
  define s' where "s' = snd (postGames now random name totalRounds playerIds s)"
  have wf: "wf_store s"
    by (rule store_invD(1) [OF assms])
  from postGames_shape [OF wf True, of now random, folded s'_def]
  obtain g newPlayers r newPoems where
    games: "games s' = games s @ [(gameIdCounter s, g)]" and g: "g_currentRound g = 1" and
    players: "players s' = players s @ newPlayers" and
    rounds: "rounds s' = rounds s @ [(roundIdCounter s, r)]" and
    r: "r_roundNumber r = 1" "r_judgeId r = hd playerIds" and
    poems: "poems s' = poems s @ newPoems" and
    new: "\<forall>e \<in> set newPoems. po_roundId (snd e) = roundIdCounter s \<and>
                                po_playerId (snd e) \<noteq> hd playerIds"
    by (elim exE conjE)
  have wf': "wf_store s'"
    unfolding s'_def using wf by (rule wf_store_postGames)
  have started: "rounds_started s'"
    using store_invD(2) [OF assms] g by (simp add: rounds_started_def games)
  have keeps: "keeps_judges s s'"
    using rounds players by (rule keeps_judges_append)
  have lookup: "map_of (rounds s') (roundIdCounter s) = Some r"
    unfolding rounds by (rule map_of_append_fresh [OF wf_map_fresh [OF wf_storeD(3) [OF wf]]])
  have "judge_has_no_poem s'"
  proof (rule judge_has_no_poem_kept [OF store_invD(3) [OF assms] keeps])
    fix k q'
    assume "(k, q') \<in> set (poems s')"
    then have "(k, q') \<in> set (poems s) \<or> (k, q') \<in> set newPoems"
      by (simp add: poems)
    then show "(\<exists>j q. (j, q) \<in> set (poems s) \<and> po_roundId q' = po_roundId q \<and>
             po_playerId q' = po_playerId q) \<or>
      (\<exists>r'. map_of (rounds s') (po_roundId q') = Some r' \<and>
            authorIsNotJudge s' r' (po_playerId q'))"
    proof
      assume "(k, q') \<in> set (poems s)"
      then have "\<exists>j q. (j, q) \<in> set (poems s) \<and> po_roundId q' = po_roundId q \<and>
             po_playerId q' = po_playerId q"
        by blast
      then show ?thesis by (rule disjI1)
    next
      assume mem: "(k, q') \<in> set newPoems"
      from new mem have "po_roundId (snd (k, q')) = roundIdCounter s \<and>
          po_playerId (snd (k, q')) \<noteq> hd playerIds"
        by (rule bspec)
      then have "map_of (rounds s') (po_roundId q') = Some r \<and>
          authorIsNotJudge s' r (po_playerId q')"
        using lookup r by (simp add: authorIsNotJudge_def)
      then have "\<exists>r'. map_of (rounds s') (po_roundId q') = Some r' \<and>
            authorIsNotJudge s' r' (po_playerId q')"
        by (rule exI)
      then show ?thesis by (rule disjI2)
    qed
  qed
  with wf' started show ?thesis
    by (simp add: store_inv_def s'_def)
qed

lemma postNextRound_shape:
  assumes "wf_store s" and "getGame s gameId = Some g"
    and "g_currentRound g < g_totalRounds g"
    and "nextJudge g (getPlayersByGame s gameId) = Inr (nextJudgeIndex, nextJudgeId)"
  shows "\<exists>r newPoems.
           games (snd (postNextRound random gameId s)) =
             AList.update gameId
               (g\<lparr> g_currentRound := g_currentRound g + 1,
                   g_currentJudgeIndex := nextJudgeIndex \<rparr>) (games s) \<and>
           players (snd (postNextRound random gameId s)) = players s \<and>
           rounds (snd (postNextRound random gameId s)) = rounds s @ [(roundIdCounter s, r)] \<and>
           r_roundNumber r = g_currentRound g + 1 \<and> r_judgeId r = nextJudgeId \<and>
           poems (snd (postNextRound random gameId s)) = poems s @ newPoems \<and>
           (\<forall>e \<in> set newPoems. po_roundId (snd e) = roundIdCounter s \<and>
              (\<exists>pl \<in> set (getPlayersByGame s gameId).
                 pl_userId pl \<noteq> nextJudgeId \<and> po_playerId (snd e) = pl_id pl))"
proof -
  define ps where "ps = getPlayersByGame s gameId"
  define g' where
    "g' = g\<lparr> g_currentRound := g_currentRound g + 1, g_currentJudgeIndex := nextJudgeIndex \<rparr>"
  define r where
    "r = \<lparr> r_id = roundIdCounter s, r_gameId = gameId, r_roundNumber = g_currentRound g + 1,
           r_judgeId = nextJudgeId, r_words = generateRandomWords random 5, r_status = Setup,
           r_timeLimit = 300, r_endTime = None, r_winnerId = None \<rparr>"
  define s1 where
    "s1 = updateGame gameId
            (\<lambda>g'. g'\<lparr> g_currentRound := g_currentRound g + 1,
                      g_currentJudgeIndex := nextJudgeIndex \<rparr>) s"
  define s2 where
    "s2 = snd (createRound gameId (g_currentRound g + 1) nextJudgeId
                 (generateRandomWords random 5) 300 s1)"
  define s3 where "s3 = nextRoundPoems (roundIdCounter s1) nextJudgeId ps s2"
  have wf1: "wf_store s1"
    unfolding s1_def using assms(1) by (rule wf_store_updateGame) simp
  have s1: "players s1 = players s" "poems s1 = poems s" "rounds s1 = rounds s"
    "roundIdCounter s1 = roundIdCounter s" "games s1 = AList.update gameId g' (games s)"
    using assms(2) by (simp_all add: s1_def updateGame_def getGame_def g'_def)
  have wf2: "wf_store s2"
    unfolding s2_def using wf1 by (rule wf_store_createRound)
  have rounds2: "rounds s2 = rounds s @ [(roundIdCounter s, r)]"
    using wf_map_create(1) [OF wf_storeD(3) [OF assms(1)], of r]
    by (simp add: s2_def createRound_def Let_def s1 r_def)
  have s2: "players s2 = players s" "poems s2 = poems s" "games s2 = games s1"
    "roundIdCounter s2 = roundIdCounter s + 1"
    by (simp_all add: s2_def createRound_def Let_def s1)
  have lt2: "roundIdCounter s1 < roundIdCounter s2"
    by (simp add: s1 s2)
  note cp = createPoems_effect [OF wf2 lt2, of "\<lambda>player. pl_userId player \<noteq> nextJudgeId" pl_id ps,
      folded nextRoundPoems_def, folded s3_def]
  from cp have same3: "same_but_poems s2 s3"
    by (rule conjunct1 [OF conjunct2])
  from cp obtain newPoems where
    npo: "poems s3 = poems s2 @ newPoems"
      "map (po_playerId \<circ> snd) newPoems =
         map pl_id (filter (\<lambda>player. pl_userId player \<noteq> nextJudgeId) ps)"
      "map (po_roundId \<circ> snd) newPoems =
         map (\<lambda>_. roundIdCounter s1) (filter (\<lambda>player. pl_userId player \<noteq> nextJudgeId) ps)"
    by (elim conjE exE)
  have s3: "games s3 = AList.update gameId g' (games s)" "players s3 = players s"
    "rounds s3 = rounds s @ [(roundIdCounter s, r)]" "poems s3 = poems s @ newPoems"
    using same3 by (simp_all add: same_but_poems_def s2 s1 rounds2 npo(1))
  have new: "po_roundId (snd e) = roundIdCounter s \<and>
      (\<exists>pl \<in> set ps. pl_userId pl \<noteq> nextJudgeId \<and> po_playerId (snd e) = pl_id pl)"
    if "e \<in> set newPoems" for e
    using new_poems_ids [OF npo(2,3) that] by (simp add: s1)
  have result: "snd (postNextRound random gameId s) = s3"
    using assms(2,3,4)
    by (simp add: postNextRound_def Let_def split_beta s3_def s2_def s1_def ps_def
        createRound_def updateGame_def getGame_def)
  have "games s3 = AList.update gameId g' (games s) \<and>
      players s3 = players s \<and>
      rounds s3 = rounds s @ [(roundIdCounter s, r)] \<and>
      r_roundNumber r = g_currentRound g + 1 \<and> r_judgeId r = nextJudgeId \<and>
      poems s3 = poems s @ newPoems \<and>
      (\<forall>e \<in> set newPoems. po_roundId (snd e) = roundIdCounter s \<and>
         (\<exists>pl \<in> set ps. pl_userId pl \<noteq> nextJudgeId \<and> po_playerId (snd e) = pl_id pl))"
    using s3 new by (simp add: r_def)
  then show ?thesis
    unfolding result g'_def ps_def by (intro exI)
qed


lemma player_of_game_lookup:
  assumes "wf_store s" and "pl \<in> set (getPlayersByGame s gameId)"
  shows "map_of (players s) (pl_id pl) = Some pl"
proof -
  from assms(2) obtain k where mem: "(k, pl) \<in> set (players s)"
    by (auto simp: getPlayersByGame_def)
  have "pl_id pl = k"
    using wf_map_entry [OF wf_storeD(2) [OF assms(1)] mem] by simp
  moreover have "map_of (players s) k = Some pl"
    using wf_map_distinct [OF wf_storeD(2) [OF assms(1)]] mem by simp
  ultimately show ?thesis by simp
qed

lemma store_inv_postNextRound:
  assumes "store_inv s"
  shows "store_inv (snd (postNextRound random gameId s))"
proof (cases "getGame s gameId")
  case None
  with assms show ?thesis by (simp add: postNextRound_def)
next
  case (Some g)
  have wf: "wf_store s"
    by (rule store_invD(1) [OF assms])
  have lookup: "map_of (games s) gameId = Some g"
    using Some by (simp add: getGame_def)
  have cur: "1 \<le> g_currentRound g"
  proof -
    have "\<forall>e \<in> set (games s). case e of (k, g) \<Rightarrow> 1 \<le> g_currentRound g"
      using store_invD(2) [OF assms] by (simp add: rounds_started_def list_all_iff)
    from this map_of_SomeD [OF lookup] have "case (gameId, g) of (k, g) \<Rightarrow> 1 \<le> g_currentRound g"
      by (rule bspec)
    then show ?thesis by simp
  qed
  show ?thesis
  proof (cases "g_currentRound g \<ge> g_totalRounds g")
    case True
    have "store_inv (updateGame gameId (\<lambda>g. g\<lparr> g_status := GameCompleted \<rparr>) s)"
      using assms by (rule store_inv_updateGame) simp_all
    with Some True show ?thesis by (simp add: postNextRound_def)
  next
    case False
    show ?thesis
    proof (cases "nextJudge g (getPlayersByGame s gameId)")
      case (Inl err)
      with Some False assms show ?thesis by (simp add: postNextRound_def Let_def)
    next
      case (Inr res)
      obtain nextJudgeIndex nextJudgeId where res: "res = (nextJudgeIndex, nextJudgeId)"
        by (cases res)
      from False have lt: "g_currentRound g < g_totalRounds g" by simp
      note judge = Inr [unfolded res]
      define s' where "s' = snd (postNextRound random gameId s)"
      from postNextRound_shape [OF wf Some lt judge, of random, folded s'_def]
      obtain r newPoems where
        games: "games s' = AList.update gameId
                 (g\<lparr> g_currentRound := g_currentRound g + 1,
                     g_currentJudgeIndex := nextJudgeIndex \<rparr>) (games s)" and
        players: "players s' = players s" and
        rounds: "rounds s' = rounds s @ [(roundIdCounter s, r)]" and
        r: "r_roundNumber r = g_currentRound g + 1" "r_judgeId r = nextJudgeId" and
        poems: "poems s' = poems s @ newPoems" and
        new: "\<forall>e \<in> set newPoems. po_roundId (snd e) = roundIdCounter s \<and>
              (\<exists>pl \<in> set (getPlayersByGame s gameId).
                 pl_userId pl \<noteq> nextJudgeId \<and> po_playerId (snd e) = pl_id pl)"
        by (elim exE conjE)
      have wf': "wf_store s'"
        unfolding s'_def using wf by (rule wf_store_postNextRound)
      have "list_all (\<lambda>(k, g). 1 \<le> g_currentRound g) (games s')"
        unfolding games
        by (rule list_all_modify
            [OF store_invD(2) [OF assms, unfolded rounds_started_def] lookup]) simp
      then have started: "rounds_started s'"
        by (simp add: rounds_started_def)
      have keeps: "keeps_judges s s'"
        by (rule keeps_judges_append [of _ _ "[(roundIdCounter s, r)]" "[]"])
          (simp_all add: rounds players)
      have lookup': "map_of (rounds s') (roundIdCounter s) = Some r"
        unfolding rounds by (rule map_of_append_fresh [OF wf_map_fresh [OF wf_storeD(3) [OF wf]]])
      have later: "r_roundNumber r \<noteq> 1"
        using cur r(1) by simp
      have "judge_has_no_poem s'"
      proof (rule judge_has_no_poem_kept [OF store_invD(3) [OF assms] keeps])
        fix k q'
        assume "(k, q') \<in> set (poems s')"
        then have "(k, q') \<in> set (poems s) \<or> (k, q') \<in> set newPoems"
          by (simp add: poems)
        then show "(\<exists>j q. (j, q) \<in> set (poems s) \<and> po_roundId q' = po_roundId q \<and>
               po_playerId q' = po_playerId q) \<or>
          (\<exists>r'. map_of (rounds s') (po_roundId q') = Some r' \<and>
                authorIsNotJudge s' r' (po_playerId q'))"
        proof
          assume "(k, q') \<in> set (poems s)"
          then have "\<exists>j q. (j, q) \<in> set (poems s) \<and> po_roundId q' = po_roundId q \<and>
               po_playerId q' = po_playerId q"
            by blast
          then show ?thesis by (rule disjI1)
        next
          assume mem: "(k, q') \<in> set newPoems"
          from new mem have "po_roundId (snd (k, q')) = roundIdCounter s \<and>
              (\<exists>pl \<in> set (getPlayersByGame s gameId).
                 pl_userId pl \<noteq> nextJudgeId \<and> po_playerId (snd (k, q')) = pl_id pl)"
            by (rule bspec)
          then obtain pl where rid: "po_roundId q' = roundIdCounter s" and
            pl: "pl \<in> set (getPlayersByGame s gameId)" "pl_userId pl \<noteq> nextJudgeId"
              "po_playerId q' = pl_id pl"
            by auto
          have "map_of (players s') (po_playerId q') = Some pl"
            using player_of_game_lookup [OF wf pl(1)] by (simp add: players pl(3))
          then have "authorIsNotJudge s' r (po_playerId q')"
            using later pl(2) r(2) by (simp add: authorIsNotJudge_def)
          with lookup' rid have "map_of (rounds s') (po_roundId q') = Some r \<and>
              authorIsNotJudge s' r (po_playerId q')"
            by simp
          then have "\<exists>r'. map_of (rounds s') (po_roundId q') = Some r' \<and>
                authorIsNotJudge s' r' (po_playerId q')"
            by (rule exI)
          then show ?thesis by (rule disjI2)
        qed
      qed
      with wf' started show ?thesis
        by (simp add: store_inv_def s'_def)
    qed
  qed
qed

section \<open>The automatic transition to judging\<close>

lemma poem_of_round_iff:
  assumes "wf_store s"
  shows "q \<in> set (getPoemsByRound s roundId) \<longleftrightarrow>
         getPoem s (po_id q) = Some q \<and> po_roundId q = roundId"
proof
  assume "q \<in> set (getPoemsByRound s roundId)"
  then obtain i where mem: "(i, q) \<in> set (poems s)" and rid: "po_roundId q = roundId"
    by (auto simp: getPoemsByRound_def)
  have "po_id q = i"
    using wf_map_entry [OF wf_storeD(4) [OF assms] mem] by simp
  moreover have "map_of (poems s) i = Some q"
    using wf_map_distinct [OF wf_storeD(4) [OF assms]] mem by simp
  ultimately show "getPoem s (po_id q) = Some q \<and> po_roundId q = roundId"
    using rid by (simp add: getPoem_def)
next
  assume h: "getPoem s (po_id q) = Some q \<and> po_roundId q = roundId"
  then have "(po_id q, q) \<in> set (poems s)"
    by (simp add: getPoem_def map_of_SomeD)
  with h show "q \<in> set (getPoemsByRound s roundId)"
    by (force simp: getPoemsByRound_def)
qed

lemma stored_poem_id:
  assumes "wf_store s" and "getPoem s i = Some q"
  shows "po_id q = i"
  using wf_map_lookup(1) [OF wf_storeD(4) [OF assms(1)], of i q] assms(2)
  by (simp add: getPoem_def)

lemma poems_of_round_nonJudge:
  assumes "store_inv s" and "getRound s roundId = Some r"
  shows "list_all (nonJudgePoem s r) (getPoemsByRound s roundId)"
proof -
  have "nonJudgePoem s r q" if "q \<in> set (getPoemsByRound s roundId)" for q
  proof -
    from that obtain i where mem: "(i, q) \<in> set (poems s)" and rid: "po_roundId q = roundId"
      by (auto simp: getPoemsByRound_def)
    from judge_has_no_poemD [OF store_invD(3) [OF assms(1)] mem] obtain r0 where
      "map_of (rounds s) (po_roundId q) = Some r0" and nj: "authorIsNotJudge s r0 (po_playerId q)"
      by blast
    with assms(2) rid have "r0 = r"
      by (simp add: getRound_def)
    with nj show ?thesis
      by (simp add: nonJudgePoem_def)
  qed
  then show ?thesis
    by (simp add: list_all_iff)
qed

lemma allSubmitted_after_submit:
  assumes "wf_store s" and "getPoem s poemId = Some p" and "po_roundId p = roundId"
  shows "allSubmitted (snd (submitPoem now poemId s)) roundId \<longleftrightarrow>
         list_all po_submitted
           (filter (\<lambda>q. po_id q \<noteq> poemId) (getPoemsByRound s roundId))"
proof -
  let ?p' = "p\<lparr> po_submitted := True, po_submittedAt := Some now \<rparr>"
  let ?s1 = "snd (submitPoem now poemId s)"
  have wf1: "wf_store ?s1"
    using assms(1) by (rule wf_store_submitPoem)
  have lookup: "map_of (poems s) poemId = Some p"
    using assms(2) by (simp add: getPoem_def)
  have get1: "getPoem ?s1 i = (if i = poemId then Some ?p' else getPoem s i)" for i
    using lookup by (simp add: submitPoem_def Let_def getPoem_def update_conv')
  have pid: "po_id p = poemId"
    using assms(1,2) by (rule stored_poem_id)
  show ?thesis
  proof
    assume all: "allSubmitted ?s1 roundId"
    have "po_submitted q"
      if "q \<in> set (filter (\<lambda>q. po_id q \<noteq> poemId) (getPoemsByRound s roundId))" for q
    proof -
      from that have q: "getPoem s (po_id q) = Some q" "po_roundId q = roundId"
        "po_id q \<noteq> poemId"
        using poem_of_round_iff [OF assms(1), of q roundId] by simp_all
      then have "getPoem ?s1 (po_id q) = Some q"
        by (simp add: get1)
      with q(2) have "q \<in> set (getPoemsByRound ?s1 roundId)"
        using poem_of_round_iff [OF wf1, of q roundId] by simp
      with all show ?thesis
        by (simp add: allSubmitted_def list_all_iff)
    qed
    then show "list_all po_submitted
        (filter (\<lambda>q. po_id q \<noteq> poemId) (getPoemsByRound s roundId))"
      unfolding list_all_iff by blast
  next
    assume others: "list_all po_submitted
        (filter (\<lambda>q. po_id q \<noteq> poemId) (getPoemsByRound s roundId))"
    have "po_submitted q" if "q \<in> set (getPoemsByRound ?s1 roundId)" for q
    proof -
      from that have q: "getPoem ?s1 (po_id q) = Some q" "po_roundId q = roundId"
        using poem_of_round_iff [OF wf1, of q roundId] by simp_all
      show ?thesis
      proof (cases "po_id q = poemId")
        case True
        with q(1) have "q = ?p'"
          by (simp add: get1)
        then show ?thesis by simp
      next
        case False
        with q(1) have "getPoem s (po_id q) = Some q"
          by (simp add: get1)
        with q(2) have "q \<in> set (getPoemsByRound s roundId)"
          using poem_of_round_iff [OF assms(1), of q roundId] by simp
        with False others show ?thesis
          by (simp add: list_all_iff)
      qed
    qed
    then show "allSubmitted ?s1 roundId"
      by (simp add: allSubmitted_def list_all_iff)
  qed
qed


text \<open>
  C6. In a store the handlers can reach, every poem stored for a round is a non-judge
  poem of that round, so the test of the submit handler, \<open>allSubmitted\<close>, holds exactly
  when every non-judge poem of the round is submitted. When a poem of the round that has
  text is submitted, the request succeeds; afterwards \<open>allSubmitted\<close> holds exactly when
  every other non-judge poem of the round was submitted already, and the round's status has
  become judging if that is so and the round was in writing, with no request to change the
  status, and is what it was otherwise.
\<close>

theorem postPoemSubmit_last_poem:
  assumes "store_inv s" and "getRound s roundId = Some r"
  shows "list_all (nonJudgePoem s r) (getPoemsByRound s roundId) \<and>
         (allSubmitted s roundId \<longleftrightarrow> allNonJudgeSubmitted s roundId r) \<and>
         (getPoem s poemId = Some p \<and> po_roundId p = roundId \<and>
          \<not> list_all isWhiteSpace (po_content p) \<longrightarrow>
            fst (postPoemSubmit now poemId s) = Inr 200 \<and>
            (allSubmitted (snd (postPoemSubmit now poemId s)) roundId \<longleftrightarrow>
               otherNonJudgeSubmitted s roundId r poemId) \<and>
            map_option r_status (getRound (snd (postPoemSubmit now poemId s)) roundId) =
              Some (if r_status r = Writing \<and> otherNonJudgeSubmitted s roundId r poemId
                    then Judging else r_status r))"
proof (intro conjI impI)
  have wf: "wf_store s"
    by (rule store_invD(1) [OF assms(1)])
  show nonJudge: "list_all (nonJudgePoem s r) (getPoemsByRound s roundId)"
    using assms by (rule poems_of_round_nonJudge)
  then have all: "filter (\<lambda>q. nonJudgePoem s r q \<and> P q) (getPoemsByRound s roundId) =
      filter P (getPoemsByRound s roundId)" for P
    by (intro filter_cong refl) (simp add: list_all_iff)
  from nonJudge have "filter (nonJudgePoem s r) (getPoemsByRound s roundId) =
      getPoemsByRound s roundId"
    by (simp add: list_all_iff)
  then show "allSubmitted s roundId \<longleftrightarrow> allNonJudgeSubmitted s roundId r"
    by (simp add: allSubmitted_def allNonJudgeSubmitted_def)
  assume h: "getPoem s poemId = Some p \<and> po_roundId p = roundId \<and>
          \<not> list_all isWhiteSpace (po_content p)"
  define s1 where "s1 = snd (submitPoem now poemId s)"
  have rid: "r_id r = roundId"
    using wf_map_lookup(1) [OF wf_storeD(3) [OF wf], of roundId r] assms(2)
    by (simp add: getRound_def)
  have all1: "allSubmitted s1 roundId \<longleftrightarrow> otherNonJudgeSubmitted s roundId r poemId"
    unfolding s1_def otherNonJudgeSubmitted_def all
    using h by (intro allSubmitted_after_submit [OF wf, of poemId p]) simp_all
  have rounds1: "rounds s1 = rounds s"
    by (simp add: s1_def submitPoem_def Let_def split: option.splits)
  have round1: "getRound s1 roundId = Some r"
    using assms(2) by (simp add: getRound_def rounds1)
  have result: "postPoemSubmit now poemId s =
      (Inr 200,
       if allSubmitted s1 roundId \<and> r_status r = Writing
       then updateRoundStatus roundId Judging s1 else s1)"
    using h round1 rid
    by (simp add: postPoemSubmit_def trim_empty_iff Let_def s1_def [symmetric])
  have poems2: "poems (updateRoundStatus roundId Judging s1) = poems s1"
    by (simp add: updateRoundStatus_def split: option.splits)
  show "fst (postPoemSubmit now poemId s) = Inr 200"
    by (simp add: result)
  show "allSubmitted (snd (postPoemSubmit now poemId s)) roundId \<longleftrightarrow>
          otherNonJudgeSubmitted s roundId r poemId"
    using all1 by (simp add: result allSubmitted_def getPoemsByRound_def poems2)
  show "map_option r_status (getRound (snd (postPoemSubmit now poemId s)) roundId) =
          Some (if r_status r = Writing \<and> otherNonJudgeSubmitted s roundId r poemId
                then Judging else r_status r)"
    using round1 all1
    by (auto simp: result getRound_def updateRoundStatus_def update_conv')
qed

lemma threeDrafts_eval:
  "threeDrafts =
     \<lparr> games = [(1, \<lparr> g_id = 1, g_name = ''Poets'', g_createdBy = 3, g_currentRound = 1,
                     g_totalRounds = 3, g_currentJudgeIndex = 0, g_status = Waiting,
                     g_createdAt = 0 \<rparr>)],
       players = [(1, \<lparr> pl_id = 1, pl_gameId = 1, pl_userId = 3, pl_score = 0, pl_isHost = True \<rparr>),
                  (2, \<lparr> pl_id = 2, pl_gameId = 1, pl_userId = 4, pl_score = 0, pl_isHost = False \<rparr>),
                  (3, \<lparr> pl_id = 3, pl_gameId = 1, pl_userId = 5, pl_score = 0, pl_isHost = False \<rparr>)],
       rounds = [(1, \<lparr> r_id = 1, r_gameId = 1, r_roundNumber = 1, r_judgeId = 3,
                      r_words = [''ocean'', ''mountain'', ''forest'', ''river'', ''sky''],
                      r_status = Writing, r_timeLimit = 300, r_endTime = Some 301000,
                      r_winnerId = None \<rparr>)],
       poems = [(1, \<lparr> po_id = 1, po_roundId = 1, po_playerId = 4, po_content = [0x61],
                     po_submitted = False, po_submittedAt = None \<rparr>),
                (2, \<lparr> po_id = 2, po_roundId = 1, po_playerId = 5, po_content = [0x62],
                     po_submitted = False, po_submittedAt = None \<rparr>)],
       gameIdCounter = 2, playerIdCounter = 4, roundIdCounter = 2, poemIdCounter = 3 \<rparr>"
  by (simp add: threeDrafts_def newGame_def postGames_def createGameRequestSchema_def
      MemStorage_def firstFive createGame_def addPlayerToGame_def createRound_def createPoem_def
      createGamePoems_def putRoundStatus_def putPoem_def getRound_def updateRoundEndTime_def
      updateRoundStatus_def updatePoem_def Let_def)

lemma isWhiteSpace_b: "\<not> isWhiteSpace 0x62"
  by (simp add: isWhiteSpace_def)

lemma firstSubmitted_eval:
  "snd (postPoemSubmit 2000 1 threeDrafts) =
     threeDrafts\<lparr> poems :=
       [(1, \<lparr> po_id = 1, po_roundId = 1, po_playerId = 4, po_content = [0x61],
              po_submitted = True, po_submittedAt = Some 2000 \<rparr>),
        (2, \<lparr> po_id = 2, po_roundId = 1, po_playerId = 5, po_content = [0x62],
              po_submitted = False, po_submittedAt = None \<rparr>)] \<rparr>"
  by (simp add: threeDrafts_eval postPoemSubmit_def allSubmitted_def trim_def isWhiteSpace_a
      Let_def getRound_def getPoem_def submitPoem_def getPoemsByRound_def update_conv')

theorem postPoemSubmit_last_poem_witness:
  "store_inv threeDrafts \<and>
   map_option r_judgeId (getRound threeDrafts 1) = Some 3 \<and>
   map po_playerId (getPoemsByRound threeDrafts 1) = [4, 5] \<and>
   list_all (nonJudgePoem threeDrafts
     \<lparr> r_id = 1, r_gameId = 1, r_roundNumber = 1, r_judgeId = 3,
       r_words = [''ocean'', ''mountain'', ''forest'', ''river'', ''sky''],
       r_status = Writing, r_timeLimit = 300, r_endTime = Some 301000, r_winnerId = None \<rparr>)
     (getPoemsByRound threeDrafts 1) \<and>
   \<not> allSubmitted threeDrafts 1 \<and>
   fst (postPoemSubmit 2000 1 threeDrafts) = Inr 200 \<and>
   \<not> allSubmitted (snd (postPoemSubmit 2000 1 threeDrafts)) 1 \<and>
   map_option r_status (getRound (snd (postPoemSubmit 2000 1 threeDrafts)) 1) = Some Writing \<and>
   fst (postPoemSubmit 3000 2 (snd (postPoemSubmit 2000 1 threeDrafts))) = Inr 200 \<and>
   allSubmitted (snd (postPoemSubmit 3000 2 (snd (postPoemSubmit 2000 1 threeDrafts)))) 1 \<and>
   map_option r_status
     (getRound (snd (postPoemSubmit 3000 2 (snd (postPoemSubmit 2000 1 threeDrafts)))) 1) =
     Some Judging"
proof -
  let ?r = "\<lparr> r_id = 1, r_gameId = 1, r_roundNumber = 1, r_judgeId = 3,
       r_words = [''ocean'', ''mountain'', ''forest'', ''river'', ''sky''],
       r_status = Writing, r_timeLimit = 300, r_endTime = Some 301000, r_winnerId = None \<rparr>"
  let ?s1 = "snd (postPoemSubmit 2000 1 threeDrafts)"
  have inv: "store_inv threeDrafts"
    unfolding threeDrafts_def newGame_def
    by (intro store_inv_putPoem store_inv_putRoundStatus store_inv_postGames
        store_inv_MemStorage)
  have inv1: "store_inv ?s1"
    using inv by (rule store_inv_postPoemSubmit)
  have round: "getRound threeDrafts 1 = Some ?r"
    by (simp add: threeDrafts_eval getRound_def)
  have round1: "getRound ?s1 1 = Some ?r"
    unfolding firstSubmitted_eval by (simp add: threeDrafts_eval getRound_def)
  have first: "otherNonJudgeSubmitted threeDrafts 1 ?r 1 = False"
    by (simp add: otherNonJudgeSubmitted_def nonJudgePoem_def authorIsNotJudge_def
        threeDrafts_eval getPoemsByRound_def)
  have second: "otherNonJudgeSubmitted ?s1 1 ?r 2 = True"
    unfolding firstSubmitted_eval
    by (simp add: otherNonJudgeSubmitted_def nonJudgePoem_def authorIsNotJudge_def
        threeDrafts_eval getPoemsByRound_def)
  have before: "map_option r_judgeId (getRound threeDrafts 1) = Some 3"
    "map po_playerId (getPoemsByRound threeDrafts 1) = [4, 5]"
    "\<not> allSubmitted threeDrafts 1"
    by (simp_all add: threeDrafts_eval getRound_def getPoemsByRound_def allSubmitted_def)
  note step1 = postPoemSubmit_last_poem [OF inv round, of 1
      "\<lparr> po_id = 1, po_roundId = 1, po_playerId = 4, po_content = [0x61],
         po_submitted = False, po_submittedAt = None \<rparr>" 2000]
  note step2 = postPoemSubmit_last_poem [OF inv1 round1, of 2
      "\<lparr> po_id = 2, po_roundId = 1, po_playerId = 5, po_content = [0x62],
         po_submitted = False, po_submittedAt = None \<rparr>" 3000]
  have one: "list_all (nonJudgePoem threeDrafts ?r) (getPoemsByRound threeDrafts 1) \<and>
      fst (postPoemSubmit 2000 1 threeDrafts) = Inr 200 \<and>
      \<not> allSubmitted ?s1 1 \<and>
      map_option r_status (getRound ?s1 1) = Some Writing"
    using step1 first
    by (simp add: threeDrafts_eval getPoem_def isWhiteSpace_a)
  have two: "fst (postPoemSubmit 3000 2 ?s1) = Inr 200 \<and>
      allSubmitted (snd (postPoemSubmit 3000 2 ?s1)) 1 \<and>
      map_option r_status (getRound (snd (postPoemSubmit 3000 2 ?s1)) 1) = Some Judging"
    using step2 second unfolding firstSubmitted_eval
    by (simp add: threeDrafts_eval getPoem_def isWhiteSpace_b)
  from inv before one two show ?thesis
    by simp
qed

section \<open>Which id a poem carries\<close>

lemma postRoundWinner_players:
  assumes "getPoem s poemId = Some p" and "getRound s roundId \<noteq> None"
  shows "fst (postRoundWinner roundId poemId s) = Inr 200"
    and "players (snd (postRoundWinner roundId poemId s)) =
           (case map_of (players s) (po_playerId p) of
              None \<Rightarrow> players s
            | Some pl \<Rightarrow>
                AList.update (po_playerId p) (pl\<lparr> pl_score := pl_score pl + 1 \<rparr>) (players s))"
proof -
  have pl: "players (setRoundWinner roundId (po_playerId p) s) = players s"
    by (simp add: setRoundWinner_def split: option.splits)
  show "fst (postRoundWinner roundId poemId s) = Inr 200"
    using assms by (auto simp: postRoundWinner_def Let_def)
  show "players (snd (postRoundWinner roundId poemId s)) =
           (case map_of (players s) (po_playerId p) of
              None \<Rightarrow> players s
            | Some pl \<Rightarrow>
                AList.update (po_playerId p) (pl\<lparr> pl_score := pl_score pl + 1 \<rparr>) (players s))"
    using assms
    by (auto simp: postRoundWinner_def Let_def updatePlayerScore_def pl split: option.splits)
qed

text \<open>
  C5 (as the code has it). In a well-formed store: the player records that \<open>POST /games\<close>
  adds carry the user ids of the request, and the poems it creates for the first round
  carry, in \<open>playerId\<close>, the user ids of the request other than the host's; the poems that
  \<open>POST /games/:id/next-round\<close> creates carry the ids of the player records of the game
  whose user is not the new judge. \<open>POST /rounds/:id/winner\<close> applies the increment at
  the key \<open>poem.playerId\<close> of the player map, whichever kind of id that is: if a record is
  stored under that key its score is raised by 1, and every other record and the order of
  the records are as before; if no record is stored under that key the request succeeds
  all the same and the player map is unchanged.
\<close>

theorem poem_playerId_kinds:
  assumes "wf_store s"
  shows "(createGameRequestSchema name totalRounds playerIds \<longrightarrow>
            map pl_userId
              (getPlayersByGame (snd (postGames now random name totalRounds playerIds s))
                 (gameIdCounter s)) = playerIds \<and>
            map po_playerId
              (getPoemsByRound (snd (postGames now random name totalRounds playerIds s))
                 (roundIdCounter s)) =
              filter (\<lambda>playerId. playerId \<noteq> hd playerIds) playerIds) \<and>
         (getGame s gameId = Some g \<and> g_currentRound g < g_totalRounds g \<and>
          nextJudge g (getPlayersByGame s gameId) = Inr (nextJudgeIndex, nextJudgeId) \<longrightarrow>
            map po_playerId
              (getPoemsByRound (snd (postNextRound random gameId s)) (roundIdCounter s)) =
              map pl_id (filter (\<lambda>player. pl_userId player \<noteq> nextJudgeId)
                (getPlayersByGame s gameId))) \<and>
         (getPoem s poemId = Some p \<and> getRound s roundId \<noteq> None \<longrightarrow>
            fst (postRoundWinner roundId poemId s) = Inr 200 \<and>
            map fst (players (snd (postRoundWinner roundId poemId s))) = map fst (players s) \<and>
            (\<forall>q. map_of (players (snd (postRoundWinner roundId poemId s))) q =
                 (if q = po_playerId p
                  then map_option (\<lambda>pl. pl\<lparr> pl_score := pl_score pl + 1 \<rparr>)
                         (map_of (players s) q)
                  else map_of (players s) q)) \<and>
            (map_of (players s) (po_playerId p) = None \<longrightarrow>
               players (snd (postRoundWinner roundId poemId s)) = players s))"
proof (intro conjI impI allI)
  assume h: "createGameRequestSchema name totalRounds playerIds"
  show "map pl_userId
          (getPlayersByGame (snd (postGames now random name totalRounds playerIds s))
             (gameIdCounter s)) = playerIds"
    using assms h by (rule postGames_effect(2))
  show "map po_playerId
          (getPoemsByRound (snd (postGames now random name totalRounds playerIds s))
             (roundIdCounter s)) =
          filter (\<lambda>playerId. playerId \<noteq> hd playerIds) playerIds"
    using assms h by (rule postGames_effect(3))
next
  assume h: "getGame s gameId = Some g \<and> g_currentRound g < g_totalRounds g \<and>
          nextJudge g (getPlayersByGame s gameId) = Inr (nextJudgeIndex, nextJudgeId)"
  show "map po_playerId
          (getPoemsByRound (snd (postNextRound random gameId s)) (roundIdCounter s)) =
          map pl_id (filter (\<lambda>player. pl_userId player \<noteq> nextJudgeId)
            (getPlayersByGame s gameId))"
    using postNextRound_effect(3) [OF assms, of gameId g nextJudgeIndex nextJudgeId random] h
    by blast
next
  assume h: "getPoem s poemId = Some p \<and> getRound s roundId \<noteq> None"
  then have poem: "getPoem s poemId = Some p" and rnd: "getRound s roundId \<noteq> None"
    by simp_all
  note pl = postRoundWinner_players(2) [OF poem rnd]
  show "fst (postRoundWinner roundId poemId s) = Inr 200"
    using poem rnd by (rule postRoundWinner_players(1))
  show "map fst (players (snd (postRoundWinner roundId poemId s))) = map fst (players s)"
  proof (cases "map_of (players s) (po_playerId p)")
    case None
    then show ?thesis unfolding pl by simp
  next
    case (Some a)
    then have "po_playerId p \<in> set (map fst (players s))"
      using map_of_SomeD [OF Some] by force
    with Some show ?thesis
      unfolding pl by (simp add: update_keys)
  qed
  {
    fix q
    show "map_of (players (snd (postRoundWinner roundId poemId s))) q =
            (if q = po_playerId p
             then map_option (\<lambda>pl. pl\<lparr> pl_score := pl_score pl + 1 \<rparr>) (map_of (players s) q)
             else map_of (players s) q)"
      unfolding pl
      by (cases "map_of (players s) (po_playerId p)") (simp_all add: update_conv')
  }
  assume none: "map_of (players s) (po_playerId p) = None"
  show "players (snd (postRoundWinner roundId poemId s)) = players s"
    unfolding pl using none by simp
qed

theorem poem_playerId_kinds_witness:
  "wf_store (newGame 3 [3, 4]) \<and>
   map pl_id (getPlayersByGame (newGame 3 [3, 4]) 1) = [1, 2] \<and>
   map pl_userId (getPlayersByGame (newGame 3 [3, 4]) 1) = [3, 4] \<and>
   map po_playerId (getPoemsByRound (newGame 3 [3, 4]) 1) = [4] \<and>
   map po_playerId (getPoemsByRound (snd (postNextRound alwaysZero 1 (newGame 3 [3, 4]))) 2) = [1] \<and>
   fst (postRoundWinner 1 1 (playToJudging [1, 2])) = Inr 200 \<and>
   map_option pl_score (map_of (players (playToJudging [1, 2])) 2) = Some 0 \<and>
   map_option pl_score (map_of (players (snd (postRoundWinner 1 1 (playToJudging [1, 2])))) 2) =
     Some 1 \<and>
   map_of (players (playToJudging [3, 4])) 4 = None \<and>
   fst (postRoundWinner 1 1 (playToJudging [3, 4])) = Inr 200 \<and>
   players (snd (postRoundWinner 1 1 (playToJudging [3, 4]))) = players (playToJudging [3, 4])"
proof -
  have wfN: "wf_store (newGame 3 [3, 4])"
    unfolding newGame_def by (intro wf_store_postGames wf_store_MemStorage)
  have wfJ: "wf_store (playToJudging playerIds)" for playerIds
    unfolding playToJudging_def playToWriting_def newGame_def
    by (intro wf_store_postPoemSubmit wf_store_putPoem wf_store_putRoundStatus
        wf_store_postGames wf_store_MemStorage)
  have ids: "map pl_id (getPlayersByGame (newGame 3 [3, 4]) 1) = [1, 2]"
    by (simp add: newGame_two getPlayersByGame_def)
  have created: "map pl_userId (getPlayersByGame (newGame 3 [3, 4]) 1) = [3, 4] \<and>
      map po_playerId (getPoemsByRound (newGame 3 [3, 4]) 1) = [4]"
    using poem_playerId_kinds [OF wf_store_MemStorage, where name = "''Poets''"
        and totalRounds = 3 and playerIds = "[3, 4]" and now = 0 and random = alwaysZero,
        folded newGame_def]
    by (simp add: createGameRequestSchema_def MemStorage_def)
  have judge: "nextJudge
      \<lparr> g_id = 1, g_name = ''Poets'', g_createdBy = 3, g_currentRound = 1, g_totalRounds = 3,
        g_currentJudgeIndex = 0, g_status = Waiting, g_createdAt = 0 \<rparr>
      (getPlayersByGame (newGame 3 [3, 4]) 1) = Inr (1, 4)"
    by (simp add: newGame_two getPlayersByGame_def nextJudge_def signed_modulo_int_def)
  have later: "map po_playerId
      (getPoemsByRound (snd (postNextRound alwaysZero 1 (newGame 3 [3, 4]))) 2) = [1]"
    using judge poem_playerId_kinds [OF wfN, where gameId = 1
        and g = "\<lparr> g_id = 1, g_name = ''Poets'', g_createdBy = 3, g_currentRound = 1,
                  g_totalRounds = 3, g_currentJudgeIndex = 0, g_status = Waiting,
                  g_createdAt = 0 \<rparr>"
        and nextJudgeIndex = 1 and nextJudgeId = 4 and random = alwaysZero]
    by (simp add: newGame_two getGame_def getPlayersByGame_def)
  have winner: "fst (postRoundWinner 1 1 (playToJudging [1, 2])) = Inr 200 \<and>
      (\<forall>q. map_of (players (snd (postRoundWinner 1 1 (playToJudging [1, 2])))) q =
           (if q = 2
            then map_option (\<lambda>pl. pl\<lparr> pl_score := pl_score pl + 1 \<rparr>)
                   (map_of (players (playToJudging [1, 2])) q)
            else map_of (players (playToJudging [1, 2])) q))"
    using poem_playerId_kinds [OF wfJ [of "[1, 2]"], where poemId = 1 and roundId = 1
        and p = "\<lparr> po_id = 1, po_roundId = 1, po_playerId = 2, po_content = [0x61],
                  po_submitted = True, po_submittedAt = Some 2000 \<rparr>"]
    by (simp add: playToJudging_two [of 1 2, simplified] getPoem_def getRound_def)
  then have score: "map_option pl_score
      (map_of (players (snd (postRoundWinner 1 1 (playToJudging [1, 2])))) 2) = Some 1"
    by (simp add: playToJudging_two)
  have before: "map_option pl_score (map_of (players (playToJudging [1, 2])) 2) = Some 0"
    by (simp add: playToJudging_two)
  have none: "map_of (players (playToJudging [3, 4])) 4 = None"
    by (simp add: playToJudging_two)
  have unchanged: "fst (postRoundWinner 1 1 (playToJudging [3, 4])) = Inr 200 \<and>
      players (snd (postRoundWinner 1 1 (playToJudging [3, 4]))) = players (playToJudging [3, 4])"
    using none poem_playerId_kinds [OF wfJ [of "[3, 4]"], where poemId = 1 and roundId = 1
        and p = "\<lparr> po_id = 1, po_roundId = 1, po_playerId = 4, po_content = [0x61],
                  po_submitted = True, po_submittedAt = Some 2000 \<rparr>"]
    by (simp add: playToJudging_two [of 3 4, simplified] getPoem_def getRound_def)
  from wfN ids created later winner score before none unchanged show ?thesis
    by simp
qed

text \<open>
  C5 as stated fails in its last part: after the first round of the game of users 3 and 4
  poem 1 carries \<open>playerId = 4\<close>, no player record is stored under 4, and the winner
  request answers 200 and leaves the player map as it was, so no score is incremented.
\<close>

theorem winner_without_record_counterexample:
  "map_option po_playerId (getPoem (playToJudging [3, 4]) 1) = Some 4 \<and>
   map fst (players (playToJudging [3, 4])) = [1, 2] \<and>
   map_of (players (playToJudging [3, 4])) 4 = None \<and>
   fst (postRoundWinner 1 1 (playToJudging [3, 4])) = Inr 200 \<and>
   players (snd (postRoundWinner 1 1 (playToJudging [3, 4]))) = players (playToJudging [3, 4])"
  by (simp add: playToJudging_two postRoundWinner_def getRound_def getPoem_def
      setRoundWinner_def updatePlayerScore_def Let_def)

section \<open>Selecting the winner\<close>

text \<open>
  What the handler does in general: it never looks at the round's status or at the round
  of the poem, so a second request on the completed round succeeds like the first, and
  the record stored under \<open>poem.playerId\<close> gains a point each time.
\<close>

lemma postRoundWinner_round:
  assumes "getPoem s poemId = Some p" and "getRound s roundId = Some r"
  shows "getRound (snd (postRoundWinner roundId poemId s)) roundId =
           Some (r\<lparr> r_winnerId := Some (po_playerId p), r_status := Completed \<rparr>)"
    and "poems (snd (postRoundWinner roundId poemId s)) = poems s"
proof -
  have keep: "rounds (snd (updatePlayerScore w 1 t)) = rounds t"
    "poems (snd (updatePlayerScore w 1 t)) = poems t" for w t
    by (simp_all add: updatePlayerScore_def Let_def split: option.splits)
  show "getRound (snd (postRoundWinner roundId poemId s)) roundId =
           Some (r\<lparr> r_winnerId := Some (po_playerId p), r_status := Completed \<rparr>)"
    using assms
    by (simp add: postRoundWinner_def Let_def getRound_def getPoem_def keep setRoundWinner_def
        update_conv')
  show "poems (snd (postRoundWinner roundId poemId s)) = poems s"
    using assms
    by (simp add: postRoundWinner_def Let_def getRound_def getPoem_def keep setRoundWinner_def)
qed

lemma postRoundWinner_twice:
  assumes "getPoem s poemId = Some p" and "getRound s roundId = Some r"
    and "map_of (players s) (po_playerId p) = Some pl"
  shows "fst (postRoundWinner roundId poemId s) = Inr 200"
    and "map_option r_status (getRound (snd (postRoundWinner roundId poemId s)) roundId) =
           Some Completed"
    and "fst (postRoundWinner roundId poemId (snd (postRoundWinner roundId poemId s))) = Inr 200"
    and "map_of (players (snd (postRoundWinner roundId poemId
           (snd (postRoundWinner roundId poemId s))))) (po_playerId p) =
           Some (pl\<lparr> pl_score := pl_score pl + 2 \<rparr>)"
proof -
  define s1 where "s1 = snd (postRoundWinner roundId poemId s)"
  have rnd: "getRound s roundId \<noteq> None"
    using assms(2) by simp
  show "fst (postRoundWinner roundId poemId s) = Inr 200"
    using assms(1) rnd by (rule postRoundWinner_players(1))
  have round1: "getRound s1 roundId =
      Some (r\<lparr> r_winnerId := Some (po_playerId p), r_status := Completed \<rparr>)"
    unfolding s1_def using assms(1,2) by (rule postRoundWinner_round(1))
  then show "map_option r_status (getRound (snd (postRoundWinner roundId poemId s)) roundId) =
      Some Completed"
    by (simp add: s1_def)
  have poem1: "getPoem s1 poemId = Some p"
    using assms(1) postRoundWinner_round(2) [OF assms(1,2)] by (simp add: getPoem_def s1_def)
  have rnd1: "getRound s1 roundId \<noteq> None"
    using round1 by simp
  have players1: "players s1 =
      AList.update (po_playerId p) (pl\<lparr> pl_score := pl_score pl + 1 \<rparr>) (players s)"
    unfolding s1_def using postRoundWinner_players(2) [OF assms(1) rnd] assms(3) by simp
  then have lookup1: "map_of (players s1) (po_playerId p) = Some (pl\<lparr> pl_score := pl_score pl + 1 \<rparr>)"
    by (simp add: update_conv')
  show "fst (postRoundWinner roundId poemId (snd (postRoundWinner roundId poemId s))) = Inr 200"
    using postRoundWinner_players(1) [OF poem1 rnd1] by (simp add: s1_def)
  show "map_of (players (snd (postRoundWinner roundId poemId
           (snd (postRoundWinner roundId poemId s))))) (po_playerId p) =
           Some (pl\<lparr> pl_score := pl_score pl + 2 \<rparr>)"
    using postRoundWinner_players(2) [OF poem1 rnd1] lookup1
    by (simp add: s1_def [symmetric] update_conv')
qed

text \<open>
  C2 on a first round. Users 3 and 4 play; user 3 is the host and the judge of round 1,
  and the poem of the round was created for user 4, whose player record has id 2, with
  \<open>playerId = 4\<close>. The round is in judging. The judge selects the poem: the request
  succeeds and the round is completed with winner 4, which is the id of no player record,
  and the scores of both players are 0 as before. The author's score is not incremented.
\<close>

theorem first_round_winner_gets_no_point:
  "map_option r_status (getRound (playToJudging [3, 4]) 1) = Some Judging \<and>
   map_option r_judgeId (getRound (playToJudging [3, 4]) 1) = Some 3 \<and>
   map_option po_roundId (getPoem (playToJudging [3, 4]) 1) = Some 1 \<and>
   map_option po_playerId (getPoem (playToJudging [3, 4]) 1) = Some 4 \<and>
   map pl_id (getPlayersByGame (playToJudging [3, 4]) 1) = [1, 2] \<and>
   map pl_userId (getPlayersByGame (playToJudging [3, 4]) 1) = [3, 4] \<and>
   map pl_score (getPlayersByGame (playToJudging [3, 4]) 1) = [0, 0] \<and>
   fst (postRoundWinner 1 1 (playToJudging [3, 4])) = Inr 200 \<and>
   map_option r_status (getRound (snd (postRoundWinner 1 1 (playToJudging [3, 4]))) 1) =
     Some Completed \<and>
   map_option r_winnerId (getRound (snd (postRoundWinner 1 1 (playToJudging [3, 4]))) 1) =
     Some (Some 4) \<and>
   map_of (players (snd (postRoundWinner 1 1 (playToJudging [3, 4])))) 4 = None \<and>
   map pl_score (getPlayersByGame (snd (postRoundWinner 1 1 (playToJudging [3, 4]))) 1) = [0, 0]"
  by (simp add: playToJudging_two postRoundWinner_def getRound_def getPoem_def
      getPlayersByGame_def setRoundWinner_def updatePlayerScore_def Let_def)

text \<open>
  C3 on a first round. Users 2 and 1 play; user 2 is the host and the judge of round 1 and
  has the player record 1, and the poem of the round was created for user 1, whose player
  record has id 2, with \<open>playerId = 1\<close>. The judge selects the poem twice: both requests
  succeed, the second on the completed round, and the two points go to player record 1,
  the judge's own; the score of the author's record is 0 as before.
\<close>

theorem second_selection_credits_the_judge:
  "map_option r_judgeId (getRound (playToJudging [2, 1]) 1) = Some 2 \<and>
   map_option po_playerId (getPoem (playToJudging [2, 1]) 1) = Some 1 \<and>
   map pl_id (getPlayersByGame (playToJudging [2, 1]) 1) = [1, 2] \<and>
   map pl_userId (getPlayersByGame (playToJudging [2, 1]) 1) = [2, 1] \<and>
   map pl_score (getPlayersByGame (playToJudging [2, 1]) 1) = [0, 0] \<and>
   fst (postRoundWinner 1 1 (playToJudging [2, 1])) = Inr 200 \<and>
   map_option r_status (getRound (snd (postRoundWinner 1 1 (playToJudging [2, 1]))) 1) =
     Some Completed \<and>
   map pl_score (getPlayersByGame (snd (postRoundWinner 1 1 (playToJudging [2, 1]))) 1) = [1, 0] \<and>
   fst (postRoundWinner 1 1 (snd (postRoundWinner 1 1 (playToJudging [2, 1])))) = Inr 200 \<and>
   map pl_score (getPlayersByGame
     (snd (postRoundWinner 1 1 (snd (postRoundWinner 1 1 (playToJudging [2, 1]))))) 1) = [2, 0]"
  by (simp add: playToJudging_two postRoundWinner_def getRound_def getPoem_def
      getPlayersByGame_def setRoundWinner_def updatePlayerScore_def Let_def)

end
